theory Spec2Isabelle
  imports Complex_Main "HOL-Library.Sublist"
begin

section \<open>JavaScript values\<close>

text \<open>
  The values a parsed JSON body can hold, plus \<open>undefined\<close> for a property that is
  absent. A number of a parsed body is a finite double, given by the rational that is
  its value. Strings are lists of bytes, the UTF-8 encoding of the JavaScript string.
\<close>

datatype jsval =
    JUndefined
  | JNull
  | JBool bool
  | JNum rat
  | JStr string
  | JArr "jsval list"
  | JObj "(string \<times> jsval) list"

text \<open>JavaScript's \<open>ToBoolean\<close>: what \<open>!v\<close> and \<open>v || w\<close> test.\<close>

fun truthy :: "jsval \<Rightarrow> bool" where
  "truthy JUndefined = False"
| "truthy JNull = False"
| "truthy (JBool b) = b"
| "truthy (JNum n) = (n \<noteq> 0)"
| "truthy (JStr s) = (s \<noteq> [])"
| "truthy (JArr vs) = True"
| "truthy (JObj kvs) = True"

text \<open>\<open>a || b\<close>\<close>

definition js_or :: "jsval \<Rightarrow> jsval \<Rightarrow> jsval" where
  "js_or a b = (if truthy a then a else b)"

text \<open>\<open>typeof v === 'number'\<close>\<close>

fun is_number :: "jsval \<Rightarrow> bool" where
  "is_number (JNum n) = True"
| "is_number v = False"

text \<open>\<open>v <= 0\<close> for a value already known to be a number.\<close>

fun num_le_zero :: "jsval \<Rightarrow> bool" where
  "num_le_zero (JNum n) = (n \<le> 0)"
| "num_le_zero v = False"

text \<open>Reading property \<open>k\<close> of an object: \<open>undefined\<close> when the key is absent.\<close>

definition field :: "(string \<rightharpoonup> jsval) \<Rightarrow> string \<Rightarrow> jsval" where
  "field obj k = (case obj k of None \<Rightarrow> JUndefined | Some v \<Rightarrow> v)"

section \<open>Error classes (server.js, lines 9-31)\<close>

text \<open>
  A JavaScript \<open>Error\<close> object: its \<open>name\<close>, its \<open>message\<close> and, when the
  object has one, its \<open>statusCode\<close>.
\<close>

datatype js_error = Error (err_name: string) (message: string) (statusCode: "nat option")

definition NotFoundError :: "string \<Rightarrow> js_error" where
  "NotFoundError msg = Error ''NotFoundError'' msg (Some 404)"

definition ValidationError :: "string \<Rightarrow> js_error" where
  "ValidationError msg = Error ''ValidationError'' msg (Some 400)"

definition AuthError :: "string \<Rightarrow> js_error" where
  "AuthError msg = Error ''AuthError'' msg (Some 401)"

text \<open>The engine's own \<open>TypeError\<close> carries no \<open>statusCode\<close>.\<close>

definition TypeError :: "string \<Rightarrow> js_error" where
  "TypeError msg = Error ''TypeError'' msg None"

section \<open>Query values and numbers\<close>

text \<open>
  What Express's query parser puts into \<open>req.query\<close> for one parameter: a string, an
  array for a repeated or bracketed parameter (\<open>?page=1&page=2\<close>), or an object
  (\<open>?page[a]=1\<close>).
\<close>

datatype qvalue =
    QString string
  | QArray "qvalue list"
  | QObject "(string \<times> qvalue) list"

text \<open>
  \<open>parseInt\<close> returns a double, and the page arithmetic is done on doubles. All the
  numbers that arise there are integer-valued doubles, the infinities and \<open>NaN\<close>:
  \<open>Fin n\<close> is the double whose value is the integer \<open>n\<close>. The sign of zero is not
  modelled; the code never observes it (both zeros are falsy, both are index 0, and
  both are printed \<open>0\<close>).
\<close>

datatype jsnum = NaN | Fin int | PosInf | NegInf

section \<open>Products, requests and responses\<close>

text \<open>
  A stored product. The id is always a string (a seed literal or the result of
  \<open>uuidv4()\<close>); the other fields hold whatever value the request body supplied, since
  the code checks the type of \<open>price\<close> only.
\<close>

record product =
  id' :: string
  name :: jsval
  description :: jsval
  price :: jsval
  category :: jsval
  inStock :: jsval

datatype http_method = GET | POST | PUT | DELETE | PATCH

text \<open>
  A request as the middleware sees it. \<open>path\<close> is the URL path split at the slashes
  (\<open>/api/products/2\<close> is \<open>[''api'', ''products'', ''2'']\<close>, \<open>/\<close> is \<open>[]\<close>);
  \<open>headers\<close> maps a header name to its value and \<open>query\<close> a parameter name to
  its parsed value; \<open>payload\<close> is the
  outcome of \<open>bodyParser.json()\<close> on the request, either the error it raises or the
  object it stores in \<open>req.body\<close> (the empty object when the request has no JSON
  body); \<open>body\<close> and \<open>params\<close> are \<open>req.body\<close> and \<open>req.params\<close>, set on the way
  through the stack.
\<close>

record request =
  method' :: http_method
  path :: "string list"
  headers :: "string \<rightharpoonup> string"
  query :: "string \<rightharpoonup> qvalue"
  payload :: "js_error + (string \<rightharpoonup> jsval)"
  body :: "string \<rightharpoonup> jsval"
  params :: "string \<rightharpoonup> string"

record list_result =
  total :: nat
  page :: jsnum
  pages :: jsnum
  products :: "product list"

datatype content =
    Text string
  | ProductJson product
  | ListJson list_result
  | StatsJson (totalProducts: nat) (inStockCount: nat)
  | ErrorJson (error_name: string) (error_message: string) (error_status: nat)
  | HtmlPage
  | NoContent

record response =
  status :: nat
  content :: content

text \<open>
  A middleware either raises or passes the request on (\<open>next()\<close>). A route handler gets
  the value the id generator would return, the request and the store, and either raises
  (\<open>next(err)\<close>) or responds; it returns the store as it leaves it.
\<close>

type_synonym middleware = "request \<Rightarrow> js_error + request"

type_synonym handler =
  "string \<Rightarrow> request \<Rightarrow> product list \<Rightarrow> (js_error + response) \<times> product list"

section \<open>String and array built-ins used by the handlers\<close>

text \<open>
  A JavaScript string is modelled by the list of bytes of its UTF-8 encoding (an
  unpaired surrogate by the three bytes of its code point). The code compares strings,
  searches a query string in a stored one, lower-cases them and parses integers from
  them. Comparison and search give the same answer on the encoding as on the string;
  \<open>parseInt\<close> is written out on the encoding; and the engine's Unicode case mapping,
  a table that is not part of the repository, is a parameter of everything that
  lower-cases: what is proved holds for every case mapping.
\<close>

type_synonym case_mapping = "string \<Rightarrow> string"

text \<open>
  The lower-casing of the ASCII letters, every other byte left as it is. It is how
  Express compares the literal segments of a route path with the request path
  (case-insensitively), and it is the engine's \<open>toLowerCase\<close> on strings of ASCII
  characters, which is how the examples below instantiate the parameter.
\<close>

definition ascii_lower_char :: "char \<Rightarrow> char" where
  "ascii_lower_char c =
     (let n = (of_char c :: nat) in if 65 \<le> n \<and> n \<le> 90 then char_of (n + 32) else c)"

definition ascii_lower :: case_mapping where
  "ascii_lower s = map ascii_lower_char s"

text \<open>
  \<open>v.toLowerCase()\<close> for the property expression \<open>expr\<close>, with the case mapping
  \<open>lc\<close>: only a string has the method, any other value makes the engine raise a
  \<open>TypeError\<close>.
\<close>

fun toLowerCase :: "case_mapping \<Rightarrow> string \<Rightarrow> jsval \<Rightarrow> js_error + string" where
  "toLowerCase lc expr (JStr s) = Inr (lc s)"
| "toLowerCase lc expr JUndefined =
     Inl (TypeError ''Cannot read properties of undefined (reading 'toLowerCase')'')"
| "toLowerCase lc expr JNull =
     Inl (TypeError ''Cannot read properties of null (reading 'toLowerCase')'')"
| "toLowerCase lc expr v = Inl (TypeError (expr @ ''.toLowerCase is not a function''))"

text \<open>\<open>s.includes(t)\<close>: \<open>t\<close> occurs in \<open>s\<close> as a contiguous substring.\<close>

fun includes' :: "string \<Rightarrow> string \<Rightarrow> bool" where
  "includes' [] t = (t = [])"
| "includes' (c # cs) t = (prefix t (c # cs) \<or> includes' cs t)"

text \<open>
  \<open>xs.filter(f)\<close> with a callback that may raise: the elements are visited in order
  and the first exception aborts the whole call.
\<close>

fun filterE :: "('a \<Rightarrow> js_error + bool) \<Rightarrow> 'a list \<Rightarrow> js_error + 'a list" where
  "filterE f [] = Inr []"
| "filterE f (x # xs) =
     (case f x of
        Inl e \<Rightarrow> Inl e
      | Inr b \<Rightarrow>
          (case filterE f xs of
             Inl e \<Rightarrow> Inl e
           | Inr ys \<Rightarrow> Inr (if b then x # ys else ys)))"

subsection \<open>Operations on query values\<close>

text \<open>\<open>if (q)\<close>: of these values only the empty string is falsy.\<close>

fun q_truthy :: "qvalue \<Rightarrow> bool" where
  "q_truthy (QString s) = (s \<noteq> [])"
| "q_truthy v = True"

text \<open>
  \<open>String(q)\<close>, as \<open>parseInt\<close> applies it to its argument: an array is the list of its
  elements' strings separated by commas, an object is \<open>[object Object]\<close>.
\<close>

fun join :: "string list \<Rightarrow> string" where
  "join [] = []"
| "join [s] = s"
| "join (s # t # ss) = s @ '','' @ join (t # ss)"

fun qToString :: "qvalue \<Rightarrow> string" where
  "qToString (QString s) = s"
| "qToString (QArray vs) = join (map qToString vs)"
| "qToString (QObject kvs) = ''[object Object]''"

text \<open>
  \<open>q.toLowerCase()\<close> for the property expression \<open>expr\<close>: arrays and objects have no
  such method.
\<close>

fun q_toLowerCase :: "case_mapping \<Rightarrow> string \<Rightarrow> qvalue \<Rightarrow> js_error + string" where
  "q_toLowerCase lc expr (QString s) = Inr (lc s)"
| "q_toLowerCase lc expr v = Inl (TypeError (expr @ ''.toLowerCase is not a function''))"

subsection \<open>Arithmetic on doubles\<close>

text \<open>The number of binary digits of a positive integer.\<close>

function bit_length :: "int \<Rightarrow> nat" where
  "bit_length n = (if n \<le> 0 then 0 else Suc (bit_length (n div 2)))"
  by pat_completeness auto
termination
  by (relation "measure nat") auto

declare bit_length.simps [simp del]

text \<open>
  The double nearest to an integer: integers of at most 53 bits are doubles; a longer
  one is rounded to 53 significant bits, a tie going to the even neighbour; and from
  \<open>2^1024\<close> on the result is an infinity.
\<close>

definition round_double :: "int \<Rightarrow> jsnum" where
  "round_double n =
     (let a = \<bar>n\<bar> in
      if a < 2 ^ 53 then Fin n
      else
        (let shift = bit_length a - 53;
             q = a div 2 ^ shift;
             r = a mod 2 ^ shift;
             half = 2 ^ (shift - 1);
             m = (if half < r \<or> (r = half \<and> odd q) then q + 1 else q) * 2 ^ shift
         in if 2 ^ 1024 \<le> m then (if n < 0 then NegInf else PosInf)
            else Fin (if n < 0 then - m else m)))"

text \<open>\<open>x - 1\<close>\<close>

fun js_minus_one :: "jsnum \<Rightarrow> jsnum" where
  "js_minus_one (Fin n) = round_double (n - 1)"
| "js_minus_one x = x"

text \<open>\<open>x * y\<close>: an infinity times zero is \<open>NaN\<close>.\<close>

fun js_sign :: "jsnum \<Rightarrow> int" where
  "js_sign (Fin n) = sgn n"
| "js_sign PosInf = 1"
| "js_sign NegInf = - 1"
| "js_sign NaN = 0"

fun js_times :: "jsnum \<Rightarrow> jsnum \<Rightarrow> jsnum" where
  "js_times NaN y = NaN"
| "js_times x NaN = NaN"
| "js_times (Fin a) (Fin b) = round_double (a * b)"
| "js_times x y =
     (if js_sign x * js_sign y = 0 then NaN
      else if js_sign x * js_sign y < 0 then NegInf else PosInf)"

text \<open>
  \<open>Math.ceil(len / limit)\<close> for an array length \<open>len\<close>. For a finite non-zero
  limit this is the ceiling of the exact quotient: an array has fewer than \<open>2^32\<close>
  elements, and then the rounding of the quotient to a double never reaches the next
  integer.
\<close>

fun math_ceil_div :: "nat \<Rightarrow> jsnum \<Rightarrow> jsnum" where
  "math_ceil_div len (Fin l) =
     (if l = 0 then (if len = 0 then NaN else PosInf)
      else Fin \<lceil>rat_of_int (int len) / rat_of_int l\<rceil>)"
| "math_ceil_div len PosInf = Fin 0"
| "math_ceil_div len NegInf = Fin 0"
| "math_ceil_div len NaN = NaN"

text \<open>
  \<open>xs.slice(start, end)\<close>. Each index is made relative to the array: \<open>NaN\<close> counts as
  0, a negative index counts from the end, and the result is clamped to the array. An
  empty range gives the empty array.
\<close>

fun relative_index :: "nat \<Rightarrow> jsnum \<Rightarrow> nat" where
  "relative_index len NaN = 0"
| "relative_index len PosInf = len"
| "relative_index len NegInf = 0"
| "relative_index len (Fin i) =
     (if i < 0 then nat (max (int len + i) 0) else nat (min i (int len)))"

definition slice :: "'a list \<Rightarrow> jsnum \<Rightarrow> jsnum \<Rightarrow> 'a list" where
  "slice xs start end' =
     (let k = relative_index (length xs) start;
          final = relative_index (length xs) end'
      in take (final - k) (drop k xs))"

subsection \<open>parseInt\<close>

text \<open>
  \<open>parseInt(s)\<close> with no radix: leading white space is skipped, then an optional sign,
  then a \<open>0x\<close> prefix selects base 16 (base 10 otherwise), then the longest run of
  digits is read; the result is the double nearest to the integer the digits denote,
  or \<open>NaN\<close> when no digit could be read.

  White space is what ECMAScript calls \<open>WhiteSpace\<close> and \<open>LineTerminator\<close>, here in
  UTF-8: U+0009 to U+000D and U+0020 in one byte, U+00A0 in two, and U+1680, U+2000 to
  U+200A, U+2028, U+2029, U+202F, U+205F, U+3000 and U+FEFF in three.
\<close>

definition white_space1 :: "char \<Rightarrow> bool" where
  "white_space1 a = ((of_char a :: nat) \<in> {9, 10, 11, 12, 13, 32})"

definition white_space2 :: "char \<Rightarrow> char \<Rightarrow> bool" where
  "white_space2 a b = ((of_char a :: nat) = 194 \<and> (of_char b :: nat) = 160)"

definition white_space3 :: "char \<Rightarrow> char \<Rightarrow> char \<Rightarrow> bool" where
  "white_space3 a b c =
     (let x = (of_char a :: nat); y = (of_char b :: nat); z = (of_char c :: nat) in
      (x = 225 \<and> y = 154 \<and> z = 128)
      \<or> (x = 226 \<and> y = 128 \<and> (128 \<le> z \<and> z \<le> 138 \<or> z = 168 \<or> z = 169 \<or> z = 175))
      \<or> (x = 226 \<and> y = 129 \<and> z = 159)
      \<or> (x = 227 \<and> y = 128 \<and> z = 128)
      \<or> (x = 239 \<and> y = 187 \<and> z = 191))"

fun trimStart :: "string \<Rightarrow> string" where
  "trimStart (a # b # c # s) =
     (if white_space1 a then trimStart (b # c # s)
      else if white_space2 a b then trimStart (c # s)
      else if white_space3 a b c then trimStart s
      else a # b # c # s)"
| "trimStart [a, b] =
     (if white_space1 a then trimStart [b]
      else if white_space2 a b then []
      else [a, b])"
| "trimStart [a] = (if white_space1 a then [] else [a])"
| "trimStart [] = []"

definition digit_val :: "char \<Rightarrow> nat option" where
  "digit_val c =
     (let n = (of_char c :: nat) in
      if 48 \<le> n \<and> n \<le> 57 then Some (n - 48)
      else if 97 \<le> n \<and> n \<le> 122 then Some (n - 87)
      else if 65 \<le> n \<and> n \<le> 90 then Some (n - 55)
      else None)"

definition is_digit :: "nat \<Rightarrow> char \<Rightarrow> bool" where
  "is_digit radix c = (case digit_val c of None \<Rightarrow> False | Some d \<Rightarrow> d < radix)"

definition digits_value :: "nat \<Rightarrow> string \<Rightarrow> int" where
  "digits_value radix ds =
     foldl (\<lambda>acc c. acc * int radix + (case digit_val c of None \<Rightarrow> 0 | Some d \<Rightarrow> int d))
       0 ds"

definition parseInt :: "string \<Rightarrow> jsnum" where
  "parseInt str =
     (let s1 = trimStart str;
          negative = (s1 \<noteq> [] \<and> hd s1 = CHR ''-'');
          s2 = (if s1 \<noteq> [] \<and> (hd s1 = CHR ''-'' \<or> hd s1 = CHR ''+'') then tl s1 else s1);
          hex = (prefix ''0x'' s2 \<or> prefix ''0X'' s2);
          radix = (if hex then 16 else 10);
          s3 = (if hex then drop 2 s2 else s2);
          ds = takeWhile (is_digit radix) s3
      in if ds = [] then NaN
         else round_double ((if negative then - 1 else 1) * digits_value radix ds))"

text \<open>
  \<open>parseInt(q) || d\<close> for a query parameter \<open>q\<close>: an absent parameter (whose string
  is \<open>undefined\<close>), \<open>NaN\<close> and zero all give the default.
\<close>

definition parseInt_or :: "qvalue option \<Rightarrow> jsnum \<Rightarrow> jsnum" where
  "parseInt_or q d =
     (case q of
        None \<Rightarrow> d
      | Some v \<Rightarrow>
          (let n = parseInt (qToString v) in if n = NaN \<or> n = Fin 0 then d else n))"

section \<open>Middleware (server.js, lines 39-83)\<close>

text \<open>The logger writes a line to the console and calls \<open>next()\<close>.\<close>

definition logger :: middleware where
  "logger req = Inr req"

text \<open>\<open>bodyParser.json()\<close>: raises what the parser raises, or sets \<open>req.body\<close>.\<close>

definition bodyParser_json :: middleware where
  "bodyParser_json req =
     (case payload req of Inl e \<Rightarrow> Inl e | Inr obj \<Rightarrow> Inr (req\<lparr>body := obj\<rparr>))"

definition authenticate :: middleware where
  "authenticate req =
     (let apiKey = headers req ''x-api-key'' in
      if apiKey = None \<or> apiKey = Some [] \<or> apiKey \<noteq> Some ''secret-api-key''
      then Inl (AuthError ''Invalid or missing API key'')
      else Inr req)"

definition validateProduct :: middleware where
  "validateProduct req =
     (if method' req = POST \<or> method' req = PUT then
        (let name = field (body req) ''name''; price = field (body req) ''price'' in
         if \<not> truthy name \<or> \<not> truthy price
         then Inl (ValidationError ''Name and price are required'')
         else if \<not> is_number price \<or> num_le_zero price
         then Inl (ValidationError ''Price must be a positive number'')
         else Inr req)
      else Inr req)"

text \<open>
  The error-handling middleware: \<open>err.statusCode || 500\<close> is the status of the response
  and of the envelope.
\<close>

definition errorHandler :: "js_error \<Rightarrow> response" where
  "errorHandler err =
     (let statusCode = (case statusCode err of
                          None \<Rightarrow> 500
                        | Some c \<Rightarrow> if c = 0 then 500 else c)
      in \<lparr>status = statusCode,
          content = ErrorJson (err_name err) (message err) statusCode\<rparr>)"

section \<open>The product store and the route handlers (server.js, lines 86-249)\<close>

text \<open>The initial value of the variable \<open>products\<close>.\<close>

definition initial_products :: "product list" where
  "initial_products =
     [\<lparr>id' = ''1'', name = JStr ''Laptop'',
       description = JStr ''High-performance laptop with 16GB RAM'',
       price = JNum 1200, category = JStr ''electronics'', inStock = JBool True\<rparr>,
      \<lparr>id' = ''2'', name = JStr ''Smartphone'',
       description = JStr ''Latest model with 128GB storage'',
       price = JNum 800, category = JStr ''electronics'', inStock = JBool True\<rparr>,
      \<lparr>id' = ''3'', name = JStr ''Coffee Maker'',
       description = JStr ''Programmable coffee maker with timer'',
       price = JNum 50, category = JStr ''kitchen'', inStock = JBool False\<rparr>]"

definition root_handler :: handler where
  "root_handler uuid req store =
     (Inr \<lparr>status = 200,
           content = Text ''Welcome to the Product API! Go to /api/products to see all products.''\<rparr>,
      store)"

subsection \<open>GET /api/products\<close>

text \<open>
  The callback of the category filter, for the query value \<open>q\<close>: the product's
  category is lower-cased first, then the query value.
\<close>

definition category_matches :: "case_mapping \<Rightarrow> qvalue \<Rightarrow> product \<Rightarrow> js_error + bool" where
  "category_matches lc q p =
     (case toLowerCase lc ''p.category'' (category p) of
        Inl e \<Rightarrow> Inl e
      | Inr l \<Rightarrow>
          (case q_toLowerCase lc ''req.query.category'' q of
             Inl e \<Rightarrow> Inl e
           | Inr r \<Rightarrow> Inr (l = r)))"

text \<open>The callback of the search filter, for the lower-cased search term.\<close>

definition name_matches :: "case_mapping \<Rightarrow> string \<Rightarrow> product \<Rightarrow> js_error + bool" where
  "name_matches lc searchTerm p =
     (case toLowerCase lc ''p.name'' (name p) of
        Inl e \<Rightarrow> Inl e
      | Inr l \<Rightarrow> Inr (includes' l searchTerm))"

text \<open>
  Lines 124-129: the category filter, applied when \<open>req.query.category\<close> is truthy
  (present and not the empty string).
\<close>

definition filter_category ::
  "case_mapping \<Rightarrow> qvalue option \<Rightarrow> product list \<Rightarrow> js_error + product list" where
  "filter_category lc q store =
     (case q of
        None \<Rightarrow> Inr store
      | Some v \<Rightarrow> if q_truthy v then filterE (category_matches lc v) store else Inr store)"

text \<open>
  Lines 132-137: the search filter, applied when \<open>req.query.search\<close> is truthy. The
  search term is lower-cased once, before the filter runs.
\<close>

definition filter_search ::
  "case_mapping \<Rightarrow> qvalue option \<Rightarrow> product list \<Rightarrow> js_error + product list" where
  "filter_search lc q store =
     (case q of
        None \<Rightarrow> Inr store
      | Some v \<Rightarrow>
          if q_truthy v
          then (case q_toLowerCase lc ''req.query.search'' v of
                  Inl e \<Rightarrow> Inl e
                | Inr searchTerm \<Rightarrow> filterE (name_matches lc searchTerm) store)
          else Inr store)"

definition filteredProducts ::
  "case_mapping \<Rightarrow> request \<Rightarrow> product list \<Rightarrow> js_error + product list" where
  "filteredProducts lc req store =
     (case filter_category lc (query req ''category'') store of
        Inl e \<Rightarrow> Inl e
      | Inr byCategory \<Rightarrow> filter_search lc (query req ''search'') byCategory)"

text \<open>Lines 140-152: the page of the filtered list and the list envelope.\<close>

definition paginate :: "request \<Rightarrow> product list \<Rightarrow> list_result" where
  "paginate req filtered =
     (let page = parseInt_or (query req ''page'') (Fin 1);
          limit = parseInt_or (query req ''limit'') (Fin 10);
          startIndex = js_times (js_minus_one page) limit;
          endIndex = js_times page limit
      in \<lparr>total = length filtered,
          page = page,
          pages = math_ceil_div (length filtered) limit,
          products = slice filtered startIndex endIndex\<rparr>)"

definition list_handler :: "case_mapping \<Rightarrow> handler" where
  "list_handler lc uuid req store =
     (case filteredProducts lc req store of
        Inl e \<Rightarrow> (Inl e, store)
      | Inr filtered \<Rightarrow> (Inr \<lparr>status = 200, content = ListJson (paginate req filtered)\<rparr>, store))"

subsection \<open>GET /api/products/stats\<close>

text \<open>
  The number of products and the number of those whose \<open>inStock\<close> is truthy. The
  third part of the answer, the object of counters per category, is not modelled.
\<close>

definition stats_handler :: handler where
  "stats_handler uuid req store =
     (Inr \<lparr>status = 200,
           content = StatsJson (length store)
                       (length (filter (\<lambda>p. truthy (inStock p)) store))\<rparr>,
      store)"

subsection \<open>GET, POST, PUT and DELETE of one product\<close>

text \<open>\<open>p.id === req.params.id\<close>\<close>

definition has_id :: "request \<Rightarrow> product \<Rightarrow> bool" where
  "has_id req p = (params req ''id'' = Some (id' p))"

definition get_handler :: handler where
  "get_handler uuid req store =
     (case find (has_id req) store of
        None \<Rightarrow> (Inl (NotFoundError ''Product not found''), store)
      | Some product \<Rightarrow> (Inr \<lparr>status = 200, content = ProductJson product\<rparr>, store))"

definition newProduct :: "string \<Rightarrow> request \<Rightarrow> product" where
  "newProduct uuid req =
     \<lparr>id' = uuid,
      name = field (body req) ''name'',
      description = js_or (field (body req) ''description'') (JStr []),
      price = field (body req) ''price'',
      category = js_or (field (body req) ''category'') (JStr ''uncategorized''),
      inStock = (if field (body req) ''inStock'' \<noteq> JUndefined
                 then field (body req) ''inStock'' else JBool True)\<rparr>"

definition post_handler :: handler where
  "post_handler uuid req store =
     (Inr \<lparr>status = 201, content = ProductJson (newProduct uuid req)\<rparr>,
      store @ [newProduct uuid req])"

text \<open>The object \<open>Object.assign\<close> leaves behind (lines 221-227).\<close>

definition assign :: "request \<Rightarrow> product \<Rightarrow> product" where
  "assign req product =
     product\<lparr>name := js_or (field (body req) ''name'') (name product),
             description := js_or (field (body req) ''description'') (description product),
             price := js_or (field (body req) ''price'') (price product),
             category := js_or (field (body req) ''category'') (category product),
             inStock := (if field (body req) ''inStock'' \<noteq> JUndefined
                         then field (body req) ''inStock'' else inStock product)\<rparr>"

text \<open>
  \<open>products.find\<close> returns the first matching object of the array and
  \<open>Object.assign\<close> mutates that object: in the store, the first match is replaced.
\<close>

fun update_first :: "('a \<Rightarrow> bool) \<Rightarrow> ('a \<Rightarrow> 'a) \<Rightarrow> 'a list \<Rightarrow> 'a list" where
  "update_first P f [] = []"
| "update_first P f (x # xs) = (if P x then f x # xs else x # update_first P f xs)"

definition put_handler :: handler where
  "put_handler uuid req store =
     (case find (has_id req) store of
        None \<Rightarrow> (Inl (NotFoundError ''Product not found''), store)
      | Some product \<Rightarrow>
          (Inr \<lparr>status = 200, content = ProductJson (assign req product)\<rparr>,
           update_first (has_id req) (assign req) store))"

definition delete_handler :: handler where
  "delete_handler uuid req store =
     (if \<not> list_ex (has_id req) store
      then (Inl (NotFoundError ''Product not found''), store)
      else (Inr \<lparr>status = 204, content = NoContent\<rparr>,
            filter (\<lambda>p. \<not> has_id req p) store))"

section \<open>The application: Express's stack of layers\<close>

text \<open>
  server.js hands its middleware and routes to Express and leaves the order of
  execution to it. What follows is the behaviour of Express's router, which the file
  relies on: every \<open>app.use\<close> and \<open>app.METHOD\<close> call appends a layer to the
  application's stack, and for each request the router walks the stack once, from the
  top, in registration order:
  \<^item> while no error is pending it runs every plain middleware and the first route whose
    method and path match, and skips error-handling middleware (functions of four
    arguments);
  \<^item> once a layer has raised (or called \<open>next(err)\<close>) it skips forward to the next
    error-handling middleware further down the stack; layers above the failing one are
    never revisited, which is why Express asks for error-handling middleware to be
    registered last, after the other \<open>app.use\<close> and route calls;
  \<^item> at the end of the stack its built-in final handler answers: with 404 when no error
    is pending, with an error page otherwise.
  Paths are taken as already split into decoded segments (a trailing slash gives no
  segment); Express's handling of HEAD and OPTIONS is not modelled.
\<close>

datatype segment = Lit string | Param string

datatype layer =
    Use middleware
  | UseError "js_error \<Rightarrow> response"
  | Route http_method "segment list" "middleware list" handler

text \<open>
  Matching a route path: a literal segment is compared without regard to the case of
  the ASCII letters, a parameter stands for one non-empty path segment.
\<close>

fun match_path :: "segment list \<Rightarrow> string list \<Rightarrow> (string \<rightharpoonup> string) option" where
  "match_path [] [] = Some Map.empty"
| "match_path (Lit l # ps) (s # ss) =
     (if ascii_lower s = ascii_lower l then match_path ps ss else None)"
| "match_path (Param k # ps) (s # ss) =
     (if s = [] then None
      else (case match_path ps ss of None \<Rightarrow> None | Some m \<Rightarrow> Some (m(k \<mapsto> s))))"
| "match_path ps ss = None"

text \<open>The middleware of one route, in order, up to the first that raises.\<close>

fun run_middleware :: "middleware list \<Rightarrow> request \<Rightarrow> js_error + request" where
  "run_middleware [] req = Inr req"
| "run_middleware (m # ms) req =
     (case m req of Inl e \<Rightarrow> Inl e | Inr req' \<Rightarrow> run_middleware ms req')"

text \<open>One route: its middleware, then its handler.\<close>

definition run_route :: "middleware list \<Rightarrow> handler \<Rightarrow> handler" where
  "run_route ms h uuid req store =
     (case run_middleware ms req of
        Inl e \<Rightarrow> (Inl e, store)
      | Inr req' \<Rightarrow> h uuid req' store)"

text \<open>
  The final handler's answer to a pending error: the error's \<open>statusCode\<close> when it is a
  4xx or 5xx code, 500 otherwise, and an HTML page. Without a pending error no route
  has matched: 404 and an HTML page.
\<close>

definition finalhandler :: "js_error option \<Rightarrow> response" where
  "finalhandler pending =
     (case pending of
        None \<Rightarrow> \<lparr>status = 404, content = HtmlPage\<rparr>
      | Some err \<Rightarrow>
          \<lparr>status = (case statusCode err of
                       None \<Rightarrow> 500
                     | Some c \<Rightarrow> if 400 \<le> c \<and> c \<le> 599 then c else 500),
           content = HtmlPage\<rparr>)"

fun dispatch ::
  "layer list \<Rightarrow> js_error option \<Rightarrow> string \<Rightarrow> request \<Rightarrow> product list
     \<Rightarrow> response \<times> product list" where
  "dispatch [] pending uuid req store = (finalhandler pending, store)"
| "dispatch (Use m # ls) None uuid req store =
     (case m req of
        Inl e \<Rightarrow> dispatch ls (Some e) uuid req store
      | Inr req' \<Rightarrow> dispatch ls None uuid req' store)"
| "dispatch (Use m # ls) (Some err) uuid req store = dispatch ls (Some err) uuid req store"
| "dispatch (UseError h # ls) None uuid req store = dispatch ls None uuid req store"
| "dispatch (UseError h # ls) (Some err) uuid req store = (h err, store)"
| "dispatch (Route m pat ms h # ls) None uuid req store =
     (if method' req \<noteq> m then dispatch ls None uuid req store
      else (case match_path pat (path req) of
              None \<Rightarrow> dispatch ls None uuid req store
            | Some ps \<Rightarrow>
                (case run_route ms h uuid (req\<lparr>params := ps\<rparr>) store of
                   (Inl e, store') \<Rightarrow> dispatch ls (Some e) uuid req store'
                 | (Inr res, store') \<Rightarrow> (res, store'))))"
| "dispatch (Route m pat ms h # ls) (Some err) uuid req store =
     dispatch ls (Some err) uuid req store"

text \<open>The stack of server.js, in the order of its \<open>app.use\<close> and \<open>app.METHOD\<close> calls.\<close>

definition app :: "case_mapping \<Rightarrow> layer list" where
  "app lc =
     [Use logger,
      Use bodyParser_json,
      UseError errorHandler,
      Route GET [] [] root_handler,
      Route GET [Lit ''api'', Lit ''products''] [] (list_handler lc),
      Route GET [Lit ''api'', Lit ''products'', Lit ''stats''] [] stats_handler,
      Route GET [Lit ''api'', Lit ''products'', Param ''id''] [] get_handler,
      Route POST [Lit ''api'', Lit ''products''] [validateProduct] post_handler,
      Route PUT [Lit ''api'', Lit ''products'', Param ''id''] [validateProduct] put_handler,
      Route DELETE [Lit ''api'', Lit ''products'', Param ''id''] [] delete_handler]"

text \<open>
  One request against the store: \<open>lc\<close> is the engine's case mapping and \<open>uuid\<close> is
  what \<open>uuidv4()\<close> returns if the request calls it.
\<close>

definition handle ::
  "case_mapping \<Rightarrow> string \<Rightarrow> request \<Rightarrow> product list \<Rightarrow> response \<times> product list" where
  "handle lc uuid req store = dispatch (app lc) None uuid req store"

section \<open>Vocabulary for the properties\<close>

text \<open>
  A request as it arrives: no \<open>x-api-key\<close> (or any other) header, the given method,
  path and query, and a JSON body that parses to the object \<open>b\<close>.
\<close>

definition plain_request ::
  "http_method \<Rightarrow> string list \<Rightarrow> (string \<rightharpoonup> qvalue) \<Rightarrow> (string \<rightharpoonup> jsval) \<Rightarrow> request" where
  "plain_request m p q b =
     \<lparr>method' = m, path = p, headers = Map.empty, query = q, payload = Inr b,
      body = Map.empty, params = Map.empty\<rparr>"

text \<open>The string a value holds, for stored fields that are strings.\<close>

fun str_of :: "jsval \<Rightarrow> string" where
  "str_of (JStr s) = s"
| "str_of v = []"

fun is_string :: "jsval \<Rightarrow> bool" where
  "is_string (JStr s) = True"
| "is_string v = False"

text \<open>
  The stores the server can be in: the seeded store, and every store left behind by a
  request, where the id generator returns an id that no stored product has.
\<close>

inductive reachable :: "case_mapping \<Rightarrow> product list \<Rightarrow> bool" for lc :: case_mapping where
  initial: "reachable lc initial_products"
| request: "reachable lc store \<Longrightarrow> uuid \<notin> set (map id' store)
              \<Longrightarrow> reachable lc (snd (handle lc uuid req store))"

text \<open>
  \<open>xs.slice(start, end)\<close> for indices that are exact integers, the reading of the
  slice in the specification.
\<close>

definition slice_int :: "'a list \<Rightarrow> int \<Rightarrow> int \<Rightarrow> 'a list" where
  "slice_int xs start end' =
     (let len = int (length xs);
          k = (if start < 0 then max (len + start) 0 else min start len);
          final = (if end' < 0 then max (len + end') 0 else min end' len)
      in take (nat (final - k)) (drop (nat k) xs))"

text \<open>
  A double \<open>v\<close> stands for the exact integer \<open>x\<close> of a computation when it is \<open>x\<close>
  itself below \<open>2^53\<close> in absolute value, and otherwise is at least that far from zero,
  on the same side.
\<close>

fun stands_for :: "jsnum \<Rightarrow> int \<Rightarrow> bool" where
  "stands_for (Fin y) x =
     ((\<bar>x\<bar> < 2 ^ 53 \<longrightarrow> y = x) \<and> (2 ^ 53 \<le> x \<longrightarrow> 2 ^ 53 \<le> y) \<and> (x \<le> - (2 ^ 53) \<longrightarrow> y \<le> - (2 ^ 53)))"
| "stands_for PosInf x = (2 ^ 53 \<le> x)"
| "stands_for NegInf x = (x \<le> - (2 ^ 53))"
| "stands_for NaN x = False"

text \<open>A query value of 310 decimal digits: the number \<open>10^309\<close>, beyond every double.\<close>

definition huge_limit :: string where
  "huge_limit = CHR ''1'' # replicate 309 (CHR ''0'')"

section \<open>Lemmas about the built-ins\<close>

lemma includes'_sublist: "includes' s t = sublist t s"
  by (induction s) (auto simp: sublist_Cons_right)

lemma includes'_iff: "includes' s t \<longleftrightarrow> (\<exists>ps ss. s = ps @ t @ ss)"
  by (simp add: includes'_sublist sublist_def)

lemma filterE_total:
  "(\<And>x. x \<in> set xs \<Longrightarrow> f x = Inr (P x)) \<Longrightarrow> filterE f xs = Inr (filter P xs)"
  by (induction xs) auto

lemma slice_int_nonneg:
  "0 \<le> a \<Longrightarrow> a \<le> b \<Longrightarrow> slice_int xs a b = take (nat (b - a)) (drop (nat a) xs)"
  unfolding slice_int_def Let_def
  by (cases "a \<le> int (length xs)") (auto simp: min_def)

lemma length_slice_int: "a \<le> b \<Longrightarrow> int (length (slice_int xs a b)) \<le> b - a"
  unfolding slice_int_def Let_def by (auto simp: min_def max_def)

lemma slice_int_beyond: "int (length xs) \<le> a \<Longrightarrow> a \<le> b \<Longrightarrow> slice_int xs a b = []"
  unfolding slice_int_def Let_def by (auto simp: min_def max_def)

lemma take_drop_nth_interval:
  "take n (drop k xs) = map (\<lambda>i. xs ! i) [k ..< min (k + n) (length xs)]"
proof (rule nth_equalityI)
  show "length (take n (drop k xs)) = length (map (\<lambda>i. xs ! i) [k ..< min (k + n) (length xs)])"
    by (auto simp: min_def)
next
  fix i assume "i < length (take n (drop k xs))"
  then have i: "i < n" "k + i < length xs" by auto
  then show "take n (drop k xs) ! i = map (\<lambda>i. xs ! i) [k ..< min (k + n) (length xs)] ! i"
    by (simp add: min_def)
qed

lemma find_first_index:
  "find P xs = Some x \<Longrightarrow>
     \<exists>k<length xs. xs ! k = x \<and> P x \<and> (\<forall>j<k. \<not> P (xs ! j)) \<and> update_first P f xs = xs[k := f x]"
proof (induction xs)
  case Nil
  then show ?case by simp
next
  case (Cons y ys)
  show ?case
  proof (cases "P y")
    case True
    with Cons.prems have "x = y" by simp
    with True show ?thesis by (intro exI[of _ 0]) simp
  next
    case False
    with Cons.prems have "find P ys = Some x" by simp
    from Cons.IH[OF this] obtain k where k: "k < length ys" "ys ! k = x" "P x"
      "\<forall>j<k. \<not> P (ys ! j)" "update_first P f ys = ys[k := f x]" by blast
    have "\<forall>j<Suc k. \<not> P ((y # ys) ! j)"
      using False k(4) by (auto simp: less_Suc_eq_0_disj)
    with False k show ?thesis by (intro exI[of _ "Suc k"]) simp
  qed
qed

lemma find_Some_ex: "(\<exists>x\<in>set xs. P x) \<Longrightarrow> \<exists>x. find P xs = Some x"
  by (induction xs) auto

lemma map_update_first: "(\<And>x. g (f x) = g x) \<Longrightarrow> map g (update_first P f xs) = map g xs"
  by (induction xs) auto

section \<open>Lemmas about doubles\<close>

lemma bit_length_bounds:
  "0 < n \<Longrightarrow> 2 ^ (bit_length n - 1) \<le> n \<and> n < 2 ^ bit_length n"
proof (induction n rule: bit_length.induct)
  case (1 n)
  show ?case
  proof (cases "n div 2 \<le> 0")
    case True
    with "1.prems" have "n = 1" by linarith
    then show ?thesis
      by (simp add: bit_length.simps[of 1] bit_length.simps[of 0])
  next
    case False
    then have pos: "0 < n div 2" by simp
    let ?b = "bit_length (n div 2)"
    from "1.IH" "1.prems" pos
    have ih: "2 ^ (?b - 1) \<le> n div 2" "n div 2 < 2 ^ ?b"
      by simp_all
    have b: "0 < ?b"
      using pos by (simp add: bit_length.simps[of "n div 2"])
    have bl: "bit_length n = Suc ?b"
      using "1.prems" by (simp add: bit_length.simps[of n])
    have "(2::int) ^ ?b = 2 * 2 ^ (?b - 1)"
      using b by (cases ?b) simp_all
    with ih(1) have lo: "2 ^ ?b \<le> n" by linarith
    from ih(2) have hi: "n < 2 * 2 ^ ?b" by linarith
    from lo hi bl show ?thesis by simp
  qed
qed

lemma round_double_exact: "\<bar>x\<bar> < 2 ^ 53 \<Longrightarrow> round_double x = Fin x"
  by (simp add: round_double_def)

text \<open>Cutting an integer of more than \<open>k\<close> bits down to \<open>k\<close> bits leaves at least \<open>2^k\<close>.\<close>

lemma truncated_large:
  fixes a :: int
  assumes "2 ^ k \<le> a" "0 < k"
  shows "2 ^ k \<le> (a div 2 ^ (bit_length a - k)) * 2 ^ (bit_length a - k)"
proof -
  let ?e = "bit_length a" and ?d = "(2::int) ^ (bit_length a - k)"
  have "(0::int) < 2 ^ k" by simp
  with assms(1) have pos: "0 < a" by linarith
  from bit_length_bounds[OF pos] have lo: "2 ^ (?e - 1) \<le> a" and hi: "a < 2 ^ ?e"
    by simp_all
  from assms(1) hi have lt: "(2::int) ^ k < 2 ^ ?e" by linarith
  have e: "k < ?e"
    by (rule power_less_imp_less_exp[OF _ lt]) simp
  have "?e - 1 = (k - 1) + (?e - k)"
    using e assms(2) by linarith
  then have split: "(2::int) ^ (?e - 1) = 2 ^ (k - 1) * ?d"
    by (simp only: power_add)
  have d: "0 < ?d" by simp
  have "2 ^ (k - 1) * ?d \<le> a"
    using lo split by simp
  then have "(2 ^ (k - 1) * ?d) div ?d \<le> a div ?d"
    using d by (rule zdiv_mono1)
  then have "2 ^ (k - 1) \<le> a div ?d"
    using d by simp
  then have "2 ^ (k - 1) * ?d \<le> (a div ?d) * ?d"
    using d by (intro mult_right_mono) simp_all
  moreover have "(2::int) ^ k \<le> 2 ^ (?e - 1)"
    using e by (intro power_increasing) simp_all
  ultimately show ?thesis
    using split by linarith
qed

lemma round_double_stands_for: "stands_for (round_double x) x"
proof (cases "\<bar>x\<bar> < 2 ^ 53")
  case True
  then show ?thesis by (simp only: round_double_exact stands_for.simps) simp
next
  case False
  define c :: int where "c = 2 ^ 53"
  define big :: int where "big = 2 ^ 1024"
  define d :: int where "d = 2 ^ (bit_length \<bar>x\<bar> - 53)"
  define q where "q = \<bar>x\<bar> div d"
  define up where "up \<longleftrightarrow> 2 ^ (bit_length \<bar>x\<bar> - 53 - 1) < \<bar>x\<bar> mod d
                     \<or> (\<bar>x\<bar> mod d = 2 ^ (bit_length \<bar>x\<bar> - 53 - 1) \<and> odd q)"
  define m where "m = (if up then q + 1 else q) * d"
  have cpos: "0 < c" by (simp add: c_def)
  have large: "c \<le> \<bar>x\<bar>"
    using False unfolding c_def by linarith
  have dpos: "0 \<le> d" by (simp add: d_def)
  have "q \<le> (if up then q + 1 else q)" by simp
  then have "q * d \<le> m"
    unfolding m_def using dpos by (rule mult_right_mono)
  moreover have "c \<le> q * d"
    unfolding c_def q_def d_def by (rule truncated_large[OF large[unfolded c_def]]) simp
  ultimately have m: "c \<le> m" by linarith
  have rd: "round_double x =
              (if big \<le> m then (if x < 0 then NegInf else PosInf)
               else Fin (if x < 0 then - m else m))"
    unfolding round_double_def Let_def m_def up_def q_def d_def big_def
    by (simp only: False if_False)
  note sf = stands_for.simps[folded c_def]
  show ?thesis
  proof (cases "x < 0")
    case True
    with large have x: "x \<le> - c" by linarith
    show ?thesis
    proof (cases "big \<le> m")
      case over: True
      show ?thesis
        by (simp only: rd over True if_True sf x)
    next
      case fin: False
      have "stands_for (Fin (- m)) x"
        unfolding sf using x m cpos by linarith
      then show ?thesis
        by (simp only: rd fin True if_True if_False)
    qed
  next
    case nonneg: False
    with large have x: "c \<le> x" by linarith
    show ?thesis
    proof (cases "big \<le> m")
      case over: True
      show ?thesis
        by (simp only: rd over nonneg if_True if_False sf x)
    next
      case fin: False
      have "stands_for (Fin m) x"
        unfolding sf using x m cpos by linarith
      then show ?thesis
        by (simp only: rd fin nonneg if_False)
    qed
  qed
qed

lemma stands_for_far:
  "stands_for v a \<Longrightarrow> 2 ^ 53 \<le> a \<Longrightarrow> 2 ^ 53 \<le> b \<Longrightarrow> stands_for v b"
  "stands_for v a \<Longrightarrow> a \<le> - (2 ^ 53) \<Longrightarrow> b \<le> - (2 ^ 53) \<Longrightarrow> stands_for v b"
  by (cases v; simp)+

lemma times_far:
  fixes x l c :: int
  assumes "0 \<le> c" "1 \<le> l"
  shows "c \<le> x \<Longrightarrow> c \<le> x * l" and "x \<le> - c \<Longrightarrow> x * l \<le> - c"
proof -
  assume "c \<le> x"
  with assms have "x \<le> x * l" by (simp add: mult_le_cancel_left1)
  with \<open>c \<le> x\<close> show "c \<le> x * l" by linarith
next
  assume "x \<le> - c"
  with assms have "x * l \<le> x" by (simp add: mult_le_cancel_left2)
  with \<open>x \<le> - c\<close> show "x * l \<le> - c" by linarith
qed

lemma stands_for_times:
  assumes "stands_for v x" "1 \<le> l"
  shows "stands_for (js_times v (Fin l)) (x * l)"
proof -
  have c: "(0::int) \<le> 2 ^ 53" by simp
  note far = times_far[OF c assms(2)]
  show ?thesis
  proof (cases v)
    case NaN
    with assms show ?thesis by simp
  next
    case (Fin y)
    have rd: "stands_for (round_double (y * l)) (y * l)"
      by (rule round_double_stands_for)
    consider "\<bar>x\<bar> < 2 ^ 53" | "2 ^ 53 \<le> x" | "x \<le> - (2 ^ 53)"
      by linarith
    then show ?thesis
    proof cases
      case 1
      with assms(1) Fin have "y = x" by simp
      with rd Fin show ?thesis by simp
    next
      case 2
      with assms(1) Fin have y: "2 ^ 53 \<le> y" by simp
      from stands_for_far(1)[OF rd far(1)[OF y] far(1)[OF 2]] Fin show ?thesis by simp
    next
      case 3
      with assms(1) Fin have y: "y \<le> - (2 ^ 53)" by simp
      from stands_for_far(2)[OF rd far(2)[OF y] far(2)[OF 3]] Fin show ?thesis by simp
    qed
  next
    case PosInf
    with assms(1) have x: "2 ^ 53 \<le> x" by simp
    from far(1)[OF x] PosInf assms(2) show ?thesis by simp
  next
    case NegInf
    with assms(1) have x: "x \<le> - (2 ^ 53)" by simp
    from far(2)[OF x] NegInf assms(2) show ?thesis by simp
  qed
qed

lemma relative_index_stands_for:
  assumes "stands_for v x" "int len < 2 ^ 53"
  shows "int (relative_index len v) = (if x < 0 then max (int len + x) 0 else min x (int len))"
proof -
  consider "\<bar>x\<bar> < 2 ^ 53" | "2 ^ 53 \<le> x" | "x \<le> - (2 ^ 53)"
    by linarith
  then show ?thesis
  proof cases
    case 1
    with assms(1) have "v = Fin x" by (cases v) simp_all
    then show ?thesis by simp
  next
    case 2
    with assms show ?thesis by (cases v) simp_all
  next
    case 3
    with assms show ?thesis by (cases v) simp_all
  qed
qed

text \<open>On an array the doubles of the page arithmetic slice like the exact integers.\<close>

lemma slice_stands_for:
  assumes "stands_for s x" "stands_for e y" "int (length xs) < 2 ^ 53"
  shows "slice xs s e = slice_int xs x y"
proof -
  let ?k = "relative_index (length xs) s" and ?f = "relative_index (length xs) e"
  have k: "int ?k = (if x < 0 then max (int (length xs) + x) 0 else min x (int (length xs)))"
    using assms(1,3) by (rule relative_index_stands_for)
  have f: "int ?f = (if y < 0 then max (int (length xs) + y) 0 else min y (int (length xs)))"
    using assms(2,3) by (rule relative_index_stands_for)
  have "slice_int xs x y = take (nat (int ?f - int ?k)) (drop (nat (int ?k)) xs)"
    unfolding slice_int_def Let_def k f ..
  also have "\<dots> = take (?f - ?k) (drop ?k xs)"
    by (simp add: nat_diff_distrib')
  finally show ?thesis
    by (simp add: slice_def Let_def)
qed

lemma filterE_length: "filterE f xs = Inr ys \<Longrightarrow> length ys \<le> length xs"
  by (induction xs arbitrary: ys) (auto split: sum.splits if_splits)

lemma filteredProducts_length:
  assumes "filteredProducts lc req store = Inr F"
  shows "length F \<le> length store"
proof -
  from assms obtain C where c: "filter_category lc (query req ''category'') store = Inr C"
    and s: "filter_search lc (query req ''search'') C = Inr F"
    by (auto simp: filteredProducts_def split: sum.splits)
  from c have "length C \<le> length store"
    by (auto simp: filter_category_def dest: filterE_length split: option.splits if_splits)
  moreover from s have "length F \<le> length C"
    by (auto simp: filter_search_def dest: filterE_length
          split: option.splits if_splits sum.splits)
  ultimately show ?thesis by simp
qed


section \<open>Lemmas about the stack\<close>

lemma dispatch_pending_store:
  "snd (dispatch ls (Some err) uuid req store) = store"
proof (induction ls)
  case Nil
  show ?case by simp
next
  case (Cons l ls)
  then show ?case by (cases l) simp_all
qed

lemma dispatch_pending:
  "dispatch ls (Some err) uuid req store = (res, store') \<Longrightarrow>
     store' = store \<and>
     (res = finalhandler (Some err) \<or> (\<exists>eh. UseError eh \<in> set ls \<and> res = eh err))"
proof (induction ls)
  case Nil
  then show ?case by auto
next
  case (Cons l ls)
  show ?case
  proof (cases l)
    case (Use mw)
    with Cons.prems have "dispatch ls (Some err) uuid req store = (res, store')"
      by simp
    from Cons.IH[OF this] show ?thesis by (blast intro: list.set_intros(2))
  next
    case (UseError eh)
    with Cons.prems have "res = eh err" "store' = store"
      by simp_all
    with UseError show ?thesis by auto
  next
    case (Route m pat ms h)
    with Cons.prems have "dispatch ls (Some err) uuid req store = (res, store')"
      by simp
    from Cons.IH[OF this] show ?thesis by (blast intro: list.set_intros(2))
  qed
qed

text \<open>
  At most one route of a stack runs. Either its response is the answer, or the answer
  comes from the final handler or an error-handling middleware, and then the store is
  as it was or as a route that raised has left it.
\<close>

lemma dispatch_result:
  "dispatch ls pend uuid req store = (res, store') \<Longrightarrow>
     (\<exists>m pat ms h req'. Route m pat ms h \<in> set ls \<and>
        run_route ms h uuid req' store = (Inr res, store'))
     \<or> ((\<exists>e. res = finalhandler e) \<or> (\<exists>eh e. UseError eh \<in> set ls \<and> res = eh e))
        \<and> (store' = store \<or>
            (\<exists>m pat ms h req' e. Route m pat ms h \<in> set ls \<and>
               run_route ms h uuid req' store = (Inl e, store')))"
proof (induction ls arbitrary: pend req)
  case Nil
  then show ?case by auto
next
  case (Cons l ls)
  show ?case
  proof (cases pend)
    case (Some err)
    with Cons.prems show ?thesis
      using dispatch_pending[of "l # ls" err uuid req store res store'] by blast
  next
    case None
    show ?thesis
    proof (cases l)
      case (Use mw)
      show ?thesis
      proof (cases "mw req")
        case (Inl e)
        with None Use Cons.prems have "dispatch ls (Some e) uuid req store = (res, store')"
          by simp
        from Cons.IH[OF this] show ?thesis by (blast intro: list.set_intros(2))
      next
        case (Inr req1)
        with None Use Cons.prems have "dispatch ls None uuid req1 store = (res, store')"
          by simp
        from Cons.IH[OF this] show ?thesis by (blast intro: list.set_intros(2))
      qed
    next
      case (UseError eh)
      with None Cons.prems have "dispatch ls None uuid req store = (res, store')"
        by simp
      from Cons.IH[OF this] show ?thesis by (blast intro: list.set_intros(2))
    next
      case (Route m pat ms h)
      show ?thesis
      proof (cases "method' req = m \<and> match_path pat (path req) \<noteq> None")
        case False
        with None Route Cons.prems have "dispatch ls None uuid req store = (res, store')"
          by (auto split: if_splits option.splits)
        from Cons.IH[OF this] show ?thesis by (blast intro: list.set_intros(2))
      next
        case True
        then obtain ps where ps: "method' req = m" "match_path pat (path req) = Some ps"
          by auto
        obtain r s1 where run: "run_route ms h uuid (req\<lparr>params := ps\<rparr>) store = (r, s1)"
          by (cases "run_route ms h uuid (req\<lparr>params := ps\<rparr>) store")
        have mem: "Route m pat ms h \<in> set (l # ls)"
          using Route by simp
        show ?thesis
        proof (cases r)
          case (Inl e)
          with None Route ps run Cons.prems
          have "dispatch ls (Some e) uuid req s1 = (res, store')"
            by simp
          from dispatch_pending[OF this]
          have "store' = s1"
            and "res = finalhandler (Some e) \<or> (\<exists>eh. UseError eh \<in> set (l # ls) \<and> res = eh e)"
            by (blast intro: list.set_intros(2))+
          with run Inl mem show ?thesis by blast
        next
          case (Inr res1)
          with None Route ps run Cons.prems have "res = res1" "store' = s1"
            by simp_all
          with run Inr mem show ?thesis by blast
        qed
      qed
    qed
  qed
qed

text \<open>Where each kind of request ends up in the stack of server.js.\<close>

lemma handle_parse_error:
  "payload req = Inl e \<Longrightarrow> handle lc uuid req store = (errorHandler e, store)"
  by (simp add: handle_def app_def logger_def bodyParser_json_def)

lemma handle_post:
  assumes "method' req = POST" "path req = [''api'', ''products'']" "payload req = Inr b"
  shows "handle lc uuid req store =
           (case run_route [validateProduct] post_handler uuid
                   (req\<lparr>body := b, params := Map.empty\<rparr>) store of
              (Inl e, store') \<Rightarrow> (finalhandler (Some e), store')
            | (Inr res, store') \<Rightarrow> (res, store'))"
  using assms
  by (simp add: handle_def app_def logger_def bodyParser_json_def split: sum.splits prod.splits)

lemma handle_put:
  assumes "method' req = PUT" "path req = [''api'', ''products'', i]" "i \<noteq> []"
    "payload req = Inr b"
  shows "handle lc uuid req store =
           (case run_route [validateProduct] put_handler uuid
                   (req\<lparr>body := b, params := [''id'' \<mapsto> i]\<rparr>) store of
              (Inl e, store') \<Rightarrow> (finalhandler (Some e), store')
            | (Inr res, store') \<Rightarrow> (res, store'))"
  using assms
  by (simp add: handle_def app_def logger_def bodyParser_json_def split: sum.splits prod.splits)

lemma handle_list:
  assumes "method' req = GET" "path req = [''api'', ''products'']" "payload req = Inr b"
  shows "handle lc uuid req store =
           (case run_route [] (list_handler lc) uuid
                   (req\<lparr>body := b, params := Map.empty\<rparr>) store of
              (Inl e, store') \<Rightarrow> (finalhandler (Some e), store')
            | (Inr res, store') \<Rightarrow> (res, store'))"
  using assms
  by (simp add: handle_def app_def logger_def bodyParser_json_def split: sum.splits prod.splits)

text \<open>The validator looks at the method and the body only, and passes the request on as it is.\<close>

lemma validateProduct_Inr: "validateProduct req = Inr req' \<Longrightarrow> req' = req"
  by (auto simp: validateProduct_def Let_def split: if_splits)

lemma validateProduct_params:
  "validateProduct req = Inr req \<Longrightarrow> validateProduct (req\<lparr>params := ps\<rparr>) = Inr (req\<lparr>params := ps\<rparr>)"
  by (auto simp: validateProduct_def Let_def split: if_splits)

text \<open>A valid PUT for an id of the store updates the first record with that id.\<close>

lemma handle_put_valid:
  assumes "method' req = PUT" "path req = [''api'', ''products'', i]" "i \<noteq> []"
    and "payload req = Inr b"
    and "validateProduct (req\<lparr>body := b\<rparr>) = Inr (req\<lparr>body := b\<rparr>)"
    and "i \<in> set (map id' store)"
  shows "\<exists>k<length store. id' (store ! k) = i \<and> (\<forall>j<k. id' (store ! j) \<noteq> i)
           \<and> handle lc uuid req store =
               (\<lparr>status = 200,
                 content = ProductJson
                   (assign (req\<lparr>body := b, params := [''id'' \<mapsto> i]\<rparr>) (store ! k))\<rparr>,
                store[k := assign (req\<lparr>body := b, params := [''id'' \<mapsto> i]\<rparr>) (store ! k)])"
proof -
  let ?r = "req\<lparr>body := b, params := [''id'' \<mapsto> i]\<rparr>"
  have v: "validateProduct ?r = Inr ?r"
    using validateProduct_params[OF assms(5)] by simp
  have "\<exists>x\<in>set store. has_id ?r x"
    using assms(6) by (auto simp: has_id_def)
  then have "\<exists>x. find (has_id ?r) store = Some x"
    by (rule find_Some_ex)
  then obtain x where x: "find (has_id ?r) store = Some x" ..
  from find_first_index[OF this, of "assign ?r"]
  obtain k where k: "k < length store" "store ! k = x" "has_id ?r x"
    "\<forall>j<k. \<not> has_id ?r (store ! j)"
    "update_first (has_id ?r) (assign ?r) store = store[k := assign ?r x]"
    by blast
  have h: "handle lc uuid req store =
            (\<lparr>status = 200, content = ProductJson (assign ?r x)\<rparr>, store[k := assign ?r x])"
    unfolding handle_put[OF assms(1-4)]
    by (simp add: run_route_def v put_handler_def x k(5))
  have id: "id' (store ! k) = i" "\<forall>j<k. id' (store ! j) \<noteq> i"
    using k(2,3,4) by (auto simp: has_id_def)
  show ?thesis
    using k(1,2) h id by (intro exI[of _ k]) simp
qed

text \<open>A PUT whose body fails validation is answered by the final handler.\<close>

lemma handle_put_invalid:
  assumes "method' req = PUT" "path req = [''api'', ''products'', i]" "i \<noteq> []"
    and "payload req = Inr b"
    and "validateProduct (req\<lparr>body := b\<rparr>) = Inl e"
  shows "handle lc uuid req store = (finalhandler (Some e), store)"
proof -
  have "validateProduct (req\<lparr>body := b, params := [''id'' \<mapsto> i]\<rparr>) = Inl e"
    using assms(5) by (auto simp: validateProduct_def Let_def split: if_splits)
  then show ?thesis
    unfolding handle_put[OF assms(1-4)] by (simp add: run_route_def)
qed

section \<open>Lemmas about the routes of server.js\<close>

lemma app_routes:
  "Route m pat ms h \<in> set (app lc) \<Longrightarrow>
     ms = [] \<and> (h = root_handler \<or> h = list_handler lc \<or> h = stats_handler
                 \<or> h = get_handler \<or> h = delete_handler)
     \<or> ms = [validateProduct] \<and> (h = post_handler \<or> h = put_handler)"
  by (auto simp: app_def)

lemma app_error_handlers: "UseError eh \<in> set (app lc) \<Longrightarrow> eh = errorHandler"
  by (auto simp: app_def)

lemma run_route_Nil: "run_route [] h uuid req store = h uuid req store"
  by (simp add: run_route_def)

lemma run_route_validate:
  "run_route [validateProduct] h uuid req store =
     (case validateProduct req of Inl e \<Rightarrow> (Inl e, store) | Inr req' \<Rightarrow> h uuid req store)"
  by (auto simp: run_route_def dest: validateProduct_Inr split: sum.splits)

text \<open>A route that raises leaves the store as it was.\<close>

lemma app_route_raise:
  assumes "Route m pat ms h \<in> set (app lc)" "run_route ms h uuid req store = (Inl e, store')"
  shows "store' = store"
  using app_routes[OF assms(1)] assms(2)
  by (auto simp: run_route_Nil run_route_validate root_handler_def list_handler_def
        stats_handler_def get_handler_def delete_handler_def post_handler_def put_handler_def
        split: sum.splits option.splits if_splits)

text \<open>A route that responds does so with a status below 400.\<close>

lemma app_route_status:
  assumes "Route m pat ms h \<in> set (app lc)" "run_route ms h uuid req store = (Inr res, store')"
  shows "status res < 400"
  using app_routes[OF assms(1)] assms(2)
  by (auto simp: run_route_Nil run_route_validate root_handler_def list_handler_def
        stats_handler_def get_handler_def delete_handler_def post_handler_def put_handler_def
        split: sum.splits option.splits if_splits)

text \<open>Only the create handler answers 201, with a record that has the generated id.\<close>

lemma app_route_created:
  assumes "Route m pat ms h \<in> set (app lc)"
    and "run_route ms h uuid req store = (Inr \<lparr>status = 201, content = ProductJson p\<rparr>, store')"
  shows "id' p = uuid"
  using app_routes[OF assms(1)] assms(2)
  by (auto simp: run_route_Nil run_route_validate root_handler_def list_handler_def
        stats_handler_def get_handler_def delete_handler_def post_handler_def put_handler_def
        newProduct_def
        split: sum.splits option.splits if_splits)

text \<open>Every route keeps the ids of the store distinct, given a fresh id.\<close>

lemma app_route_distinct:
  assumes "Route m pat ms h \<in> set (app lc)" "run_route ms h uuid req store = (out, store')"
    and "distinct (map id' store)" "uuid \<notin> set (map id' store)"
  shows "distinct (map id' store')"
proof -
  have upd: "map id' (update_first (has_id req) (assign req) store) = map id' store"
    by (rule map_update_first) (simp add: assign_def)
  have del: "distinct (map id' (filter (\<lambda>p. \<not> has_id req p) store))"
    using assms(3) by (rule distinct_map_filter)
  have new: "id' (newProduct uuid req) = uuid"
    by (simp add: newProduct_def)
  show ?thesis
    using app_routes[OF assms(1)] assms(2,3,4) upd del new
    by (auto simp: run_route_Nil run_route_validate root_handler_def list_handler_def
          stats_handler_def get_handler_def delete_handler_def post_handler_def put_handler_def
          split: sum.splits option.splits if_splits)
qed

text \<open>One request keeps the ids of the store distinct, given a fresh id.\<close>

lemma handle_distinct:
  assumes "distinct (map id' store)" "uuid \<notin> set (map id' store)"
  shows "distinct (map id' (snd (handle lc uuid req store)))"
proof -
  obtain res store' where h: "dispatch (app lc) None uuid req store = (res, store')"
    by (cases "dispatch (app lc) None uuid req store")
  from dispatch_result[OF h] consider
      (route) m pat ms h out req' where "Route m pat ms h \<in> set (app lc)"
        "run_route ms h uuid req' store = (out, store')"
    | (same) "store' = store"
    by blast
  then have "distinct (map id' store')"
  proof cases
    case route
    then show ?thesis
      using assms by (rule app_route_distinct)
  next
    case same
    with assms(1) show ?thesis by simp
  qed
  with h show ?thesis
    by (simp add: handle_def)
qed

text \<open>An answer with an error status leaves the store as it was.\<close>

lemma handle_error_status:
  assumes "400 \<le> status (fst (handle lc uuid req store))"
  shows "snd (handle lc uuid req store) = store"
proof -
  obtain res store' where h: "dispatch (app lc) None uuid req store = (res, store')"
    by (cases "dispatch (app lc) None uuid req store")
  with assms have st: "400 \<le> status res"
    by (simp add: handle_def)
  from dispatch_result[OF h] consider
      (responded) m pat ms h req' where "Route m pat ms h \<in> set (app lc)"
        "run_route ms h uuid req' store = (Inr res, store')"
    | (raised) m pat ms h req' e where "Route m pat ms h \<in> set (app lc)"
        "run_route ms h uuid req' store = (Inl e, store')"
    | (same) "store' = store"
    by blast
  then have "store' = store"
  proof cases
    case responded
    then have "status res < 400"
      by (rule app_route_status)
    with st show ?thesis by simp
  next
    case raised
    then show ?thesis
      by (rule app_route_raise)
  next
    case same
    then show ?thesis .
  qed
  with h show ?thesis
    by (simp add: handle_def)
qed

text \<open>An answer 201 with a product carries the generated id.\<close>

lemma handle_created:
  assumes "fst (handle lc uuid req store) = \<lparr>status = 201, content = ProductJson p\<rparr>"
  shows "id' p = uuid"
proof -
  obtain res store' where h: "dispatch (app lc) None uuid req store = (res, store')"
    by (cases "dispatch (app lc) None uuid req store")
  with assms have res: "res = \<lparr>status = 201, content = ProductJson p\<rparr>"
    by (simp add: handle_def)
  from dispatch_result[OF h] consider
      (responded) m pat ms h req' where "Route m pat ms h \<in> set (app lc)"
        "run_route ms h uuid req' store = (Inr res, store')"
    | (final) e where "res = finalhandler e"
    | (handler) eh e where "UseError eh \<in> set (app lc)" "res = eh e"
    by blast
  then show ?thesis
  proof cases
    case responded
    then show ?thesis
      unfolding res by (rule app_route_created)
  next
    case final
    with res show ?thesis
      by (simp add: finalhandler_def split: option.splits)
  next
    case handler
    with res app_error_handlers[OF handler(1)] show ?thesis
      by (simp add: errorHandler_def Let_def)
  qed
qed

section \<open>The validator (C6)\<close>

text \<open>
  C6. For every POST or PUT request the validator raises a \<open>ValidationError\<close> (status
  400) exactly when \<open>name\<close> is absent or falsy, or \<open>price\<close> is absent or falsy, or
  \<open>price\<close> is not a number, or \<open>price <= 0\<close>; a supplied price of 0 is rejected; and
  when there is no violation the request goes on to the handler unchanged.
\<close>

theorem validateProduct_rejects_iff:
  assumes "method' req = POST \<or> method' req = PUT"
  shows "((\<exists>msg. validateProduct req = Inl (ValidationError msg)) \<longleftrightarrow>
            (body req ''name'' = None \<or> \<not> truthy (field (body req) ''name'')) \<or>
            (body req ''price'' = None \<or> \<not> truthy (field (body req) ''price'')) \<or>
            \<not> is_number (field (body req) ''price'') \<or>
            (\<exists>n. field (body req) ''price'' = JNum n \<and> n \<le> 0))
       \<and> (validateProduct req = Inr req \<longleftrightarrow>
            \<not> (\<exists>msg. validateProduct req = Inl (ValidationError msg)))
       \<and> (field (body req) ''price'' = JNum 0 \<longrightarrow>
            validateProduct req = Inl (ValidationError ''Name and price are required''))
       \<and> (\<forall>msg. statusCode (ValidationError msg) = Some 400)"
proof -
  let ?price = "field (body req) ''price''"
  have absent: "body req k = None \<Longrightarrow> \<not> truthy (field (body req) k)" for k
    by (simp add: field_def)
  have le: "num_le_zero ?price \<longleftrightarrow> (\<exists>n. ?price = JNum n \<and> n \<le> 0)"
    by (cases ?price) simp_all
  show ?thesis
    using assms absent[of "''name''"] absent[of "''price''"] le
    by (auto simp: validateProduct_def Let_def ValidationError_def)
qed

theorem validateProduct_rejects_iff_witness:
  "(method' ((plain_request POST [''api'', ''products''] Map.empty Map.empty)
        \<lparr>body := [''name'' \<mapsto> JStr ''Kettle'', ''price'' \<mapsto> JNum 0]\<rparr>) = POST
     \<or> method' ((plain_request POST [''api'', ''products''] Map.empty Map.empty)
        \<lparr>body := [''name'' \<mapsto> JStr ''Kettle'', ''price'' \<mapsto> JNum 0]\<rparr>) = PUT)
   \<and> validateProduct ((plain_request POST [''api'', ''products''] Map.empty Map.empty)
        \<lparr>body := [''name'' \<mapsto> JStr ''Kettle'', ''price'' \<mapsto> JNum 0]\<rparr>)
       = Inl (ValidationError ''Name and price are required'')"
proof -
  let ?r = "(plain_request POST [''api'', ''products''] Map.empty Map.empty)
        \<lparr>body := [''name'' \<mapsto> JStr ''Kettle'', ''price'' \<mapsto> JNum 0]\<rparr>"
  have m: "method' ?r = POST \<or> method' ?r = PUT"
    by (simp add: plain_request_def)
  have p: "field (body ?r) ''price'' = JNum 0"
    by (simp add: plain_request_def field_def)
  from validateProduct_rejects_iff[OF m] p m show ?thesis
    by blast
qed

section \<open>Creating a product (C7)\<close>

text \<open>
  C7. Every POST /api/products whose body passes validation appends to the store a
  record with the freshly generated id, \<open>name\<close> and \<open>price\<close> from the body,
  \<open>description\<close> defaulting to the empty string, \<open>category\<close> defaulting to
  \<open>uncategorized\<close> and \<open>inStock\<close> defaulting to \<open>true\<close> when absent, and answers 201
  with exactly that record.
\<close>

theorem create_product:
  assumes "method' req = POST" "path req = [''api'', ''products'']" "payload req = Inr b"
    and "validateProduct (req\<lparr>body := b\<rparr>) = Inr (req\<lparr>body := b\<rparr>)"
  shows "handle lc uuid req store =
           (\<lparr>status = 201,
             content = ProductJson
               \<lparr>id' = uuid,
                name = field b ''name'',
                description = (if truthy (field b ''description'')
                               then field b ''description'' else JStr []),
                price = field b ''price'',
                category = (if truthy (field b ''category'')
                            then field b ''category'' else JStr ''uncategorized''),
                inStock = (if b ''inStock'' = None \<or> b ''inStock'' = Some JUndefined
                           then JBool True else field b ''inStock'')\<rparr>\<rparr>,
            store @
              [\<lparr>id' = uuid,
                name = field b ''name'',
                description = (if truthy (field b ''description'')
                               then field b ''description'' else JStr []),
                price = field b ''price'',
                category = (if truthy (field b ''category'')
                            then field b ''category'' else JStr ''uncategorized''),
                inStock = (if b ''inStock'' = None \<or> b ''inStock'' = Some JUndefined
                           then JBool True else field b ''inStock'')\<rparr>])"
proof -
  have v: "validateProduct (req\<lparr>body := b, params := Map.empty\<rparr>)
             = Inr (req\<lparr>body := b, params := Map.empty\<rparr>)"
    using validateProduct_params[OF assms(4)] by simp
  have undef: "field b ''inStock'' = JUndefined
                 \<longleftrightarrow> b ''inStock'' = None \<or> b ''inStock'' = Some JUndefined"
    by (auto simp: field_def split: option.splits)
  show ?thesis
    unfolding handle_post[OF assms(1-3)]
    by (simp add: run_route_def v post_handler_def newProduct_def js_or_def undef)
qed

text \<open>
  The scenario of the specification: \<open>{"name":"Kettle","price":30}\<close> against the seeded
  store, with a generator that returns \<open>k-1\<close>.
\<close>

theorem create_product_witness:
  "handle ascii_lower ''k-1''
     (plain_request POST [''api'', ''products''] Map.empty
        [''name'' \<mapsto> JStr ''Kettle'', ''price'' \<mapsto> JNum 30])
     initial_products =
   (\<lparr>status = 201,
     content = ProductJson
       \<lparr>id' = ''k-1'', name = JStr ''Kettle'', description = JStr [], price = JNum 30,
        category = JStr ''uncategorized'', inStock = JBool True\<rparr>\<rparr>,
    initial_products @
      [\<lparr>id' = ''k-1'', name = JStr ''Kettle'', description = JStr [], price = JNum 30,
        category = JStr ''uncategorized'', inStock = JBool True\<rparr>])"
proof -
  let ?b = "[''name'' \<mapsto> JStr ''Kettle'', ''price'' \<mapsto> JNum 30]"
  let ?r = "plain_request POST [''api'', ''products''] Map.empty ?b"
  have 1: "method' ?r = POST" and 2: "path ?r = [''api'', ''products'']"
    and 3: "payload ?r = Inr ?b"
    by (simp_all add: plain_request_def)
  have 4: "validateProduct (?r\<lparr>body := ?b\<rparr>) = Inr (?r\<lparr>body := ?b\<rparr>)"
    by (simp add: validateProduct_def plain_request_def field_def Let_def)
  show ?thesis
    using create_product[OF 1 2 3 4, where lc = ascii_lower and uuid = "''k-1''"
            and store = initial_products]
    by (simp add: field_def)
qed

section \<open>Updating a product (C8, C2)\<close>

text \<open>
  C8. For every update whose body passes validation and whose id exists in the store,
  each of \<open>name\<close>, \<open>description\<close>, \<open>price\<close> and \<open>category\<close> is overwritten by the
  body's value when that value is truthy and keeps its value otherwise; \<open>inStock\<close> is
  overwritten exactly when the body has it (it is not \<open>undefined\<close>), even when it is
  \<open>false\<close>; the record updated is the first one with that id (position \<open>k\<close>), and all
  other records of the store are unchanged. (The id is a path parameter, hence a
  non-empty path segment.)
\<close>

theorem update_product_merge:
  assumes "method' req = PUT" "path req = [''api'', ''products'', i]" "i \<noteq> []"
    and "payload req = Inr b"
    and "validateProduct (req\<lparr>body := b\<rparr>) = Inr (req\<lparr>body := b\<rparr>)"
    and "i \<in> set (map id' store)"
  shows "\<exists>k p. k < length store \<and> id' (store ! k) = i \<and> (\<forall>j<k. id' (store ! j) \<noteq> i)
           \<and> handle lc uuid req store =
               (\<lparr>status = 200, content = ProductJson p\<rparr>, store[k := p])
           \<and> id' p = i
           \<and> name p = (if truthy (field b ''name'')
                        then field b ''name'' else name (store ! k))
           \<and> description p = (if truthy (field b ''description'')
                               then field b ''description'' else description (store ! k))
           \<and> price p = (if truthy (field b ''price'')
                         then field b ''price'' else price (store ! k))
           \<and> category p = (if truthy (field b ''category'')
                            then field b ''category'' else category (store ! k))
           \<and> inStock p = (if field b ''inStock'' = JUndefined
                           then inStock (store ! k) else field b ''inStock'')"
proof -
  from handle_put_valid[OF assms, where lc = lc and uuid = uuid] obtain k where k: "k < length store"
    "id' (store ! k) = i" "\<forall>j<k. id' (store ! j) \<noteq> i"
    "handle lc uuid req store =
       (\<lparr>status = 200,
         content = ProductJson
           (assign (req\<lparr>body := b, params := [''id'' \<mapsto> i]\<rparr>) (store ! k))\<rparr>,
        store[k := assign (req\<lparr>body := b, params := [''id'' \<mapsto> i]\<rparr>) (store ! k)])"
    by blast
  show ?thesis
    using k
    by (intro exI[of _ k]
          exI[of _ "assign (req\<lparr>body := b, params := [''id'' \<mapsto> i]\<rparr>) (store ! k)"])
       (simp add: assign_def js_or_def)
qed

theorem update_product_merge_witness:
  "''3'' \<in> set (map id' initial_products)
   \<and> (\<exists>k p. k < length initial_products \<and> id' (initial_products ! k) = ''3''
         \<and> handle ascii_lower ''u''
              (plain_request PUT [''api'', ''products'', ''3''] Map.empty
                 [''name'' \<mapsto> JStr ''Coffee Maker'', ''price'' \<mapsto> JNum 45,
                  ''inStock'' \<mapsto> JBool False])
              initial_products
            = (\<lparr>status = 200, content = ProductJson p\<rparr>, initial_products[k := p])
         \<and> price p = JNum 45 \<and> inStock p = JBool False
         \<and> description p = description (initial_products ! k)
         \<and> category p = category (initial_products ! k))"
proof -
  let ?b = "[''name'' \<mapsto> JStr ''Coffee Maker'', ''price'' \<mapsto> JNum 45,
             ''inStock'' \<mapsto> JBool False]"
  let ?r = "plain_request PUT [''api'', ''products'', ''3''] Map.empty ?b"
  have 1: "method' ?r = PUT" and 2: "path ?r = [''api'', ''products'', ''3'']"
    and 3: "''3'' \<noteq> []" and 4: "payload ?r = Inr ?b"
    by (simp_all add: plain_request_def)
  have 5: "validateProduct (?r\<lparr>body := ?b\<rparr>) = Inr (?r\<lparr>body := ?b\<rparr>)"
    by (simp add: validateProduct_def plain_request_def field_def Let_def)
  have 6: "''3'' \<in> set (map id' initial_products)"
    by (simp add: initial_products_def)
  have f: "field ?b ''price'' = JNum 45" "field ?b ''inStock'' = JBool False"
    "field ?b ''description'' = JUndefined" "field ?b ''category'' = JUndefined"
    by (simp_all add: field_def)
  from update_product_merge[OF 1 2 3 4 5 6, where lc = ascii_lower and uuid = "''u''"] obtain k p where
    "k < length initial_products" "id' (initial_products ! k) = ''3''"
    "handle ascii_lower ''u'' ?r initial_products
       = (\<lparr>status = 200, content = ProductJson p\<rparr>, initial_products[k := p])"
    "price p = (if truthy (field ?b ''price'')
                then field ?b ''price'' else price (initial_products ! k))"
    "description p = (if truthy (field ?b ''description'')
                then field ?b ''description'' else description (initial_products ! k))"
    "category p = (if truthy (field ?b ''category'')
                then field ?b ''category'' else category (initial_products ! k))"
    "inStock p = (if field ?b ''inStock'' = JUndefined
                  then inStock (initial_products ! k) else field ?b ''inStock'')"
    by blast
  then show ?thesis
    using 6 unfolding f by (intro conjI exI[of _ k] exI[of _ p]) simp_all
qed

text \<open>
  C2, as stated, fails: the validator is applied to PUT as well and requires \<open>name\<close>
  and \<open>price\<close>, so the specification's scenario \<open>PUT /api/products/2\<close> with
  \<open>{"price":750}\<close> and the valid API key is answered with status 400 and the store is
  left as it was.
\<close>

theorem put_price_only_counterexample:
  "handle ascii_lower ''u''
     ((plain_request PUT [''api'', ''products'', ''2''] Map.empty [''price'' \<mapsto> JNum 750])
        \<lparr>headers := [''x-api-key'' \<mapsto> ''secret-api-key'']\<rparr>)
     initial_products
   = (\<lparr>status = 400, content = HtmlPage\<rparr>, initial_products)"
proof -
  let ?b = "[''price'' \<mapsto> JNum 750]"
  let ?r = "(plain_request PUT [''api'', ''products'', ''2''] Map.empty ?b)
              \<lparr>headers := [''x-api-key'' \<mapsto> ''secret-api-key'']\<rparr>"
  have 1: "method' ?r = PUT" and 2: "path ?r = [''api'', ''products'', ''2'']"
    and 3: "''2'' \<noteq> []" and 4: "payload ?r = Inr ?b"
    by (simp_all add: plain_request_def)
  have 5: "validateProduct (?r\<lparr>body := ?b\<rparr>)
             = Inl (ValidationError ''Name and price are required'')"
    by (simp add: validateProduct_def plain_request_def field_def Let_def)
  show ?thesis
    unfolding handle_put_invalid[OF 1 2 3 4 5]
    by (simp add: finalhandler_def ValidationError_def)
qed

text \<open>
  C2, amended. A PUT for an id of the store succeeds exactly when its body has a truthy
  \<open>name\<close> and a \<open>price\<close> that is a number greater than zero. Any other body (no
  \<open>name\<close>, no \<open>price\<close>, a falsy one, a \<open>price\<close> that is not a number or not
  positive) is answered 400 and the store is unchanged. A body that has them is answered
  200 with the updated record; \<open>description\<close>, \<open>category\<close> and \<open>inStock\<close> may be
  left out of the body and then keep their values.
\<close>

theorem put_partial_body:
  assumes "method' req = PUT" "path req = [''api'', ''products'', i]" "i \<noteq> []"
    and "payload req = Inr b"
    and "i \<in> set (map id' store)"
  shows "(\<not> truthy (field b ''name'') \<or> \<not> truthy (field b ''price'')
            \<or> \<not> is_number (field b ''price'') \<or> num_le_zero (field b ''price'') \<longrightarrow>
            handle lc uuid req store = (\<lparr>status = 400, content = HtmlPage\<rparr>, store))
       \<and> (truthy (field b ''name'') \<and> truthy (field b ''price'')
            \<and> is_number (field b ''price'') \<and> \<not> num_le_zero (field b ''price'') \<longrightarrow>
            (\<exists>k p. k < length store \<and> id' (store ! k) = i
               \<and> handle lc uuid req store =
                   (\<lparr>status = 200, content = ProductJson p\<rparr>, store[k := p])
               \<and> name p = field b ''name'' \<and> price p = field b ''price''
               \<and> (b ''description'' = None \<longrightarrow> description p = description (store ! k))
               \<and> (b ''category'' = None \<longrightarrow> category p = category (store ! k))
               \<and> (b ''inStock'' = None \<longrightarrow> inStock p = inStock (store ! k))))"
proof (intro conjI impI)
  assume bad: "\<not> truthy (field b ''name'') \<or> \<not> truthy (field b ''price'')
                 \<or> \<not> is_number (field b ''price'') \<or> num_le_zero (field b ''price'')"
  have "\<exists>msg. validateProduct (req\<lparr>body := b\<rparr>) = Inl (ValidationError msg)"
  proof (cases "\<not> truthy (field b ''name'') \<or> \<not> truthy (field b ''price'')")
    case True
    then have "validateProduct (req\<lparr>body := b\<rparr>)
                 = Inl (ValidationError ''Name and price are required'')"
      using assms(1) by (simp add: validateProduct_def Let_def)
    then show ?thesis ..
  next
    case False
    with bad have "validateProduct (req\<lparr>body := b\<rparr>)
                     = Inl (ValidationError ''Price must be a positive number'')"
      using assms(1) by (simp add: validateProduct_def Let_def)
    then show ?thesis ..
  qed
  then obtain msg where "validateProduct (req\<lparr>body := b\<rparr>) = Inl (ValidationError msg)" ..
  from handle_put_invalid[OF assms(1-4) this]
  show "handle lc uuid req store = (\<lparr>status = 400, content = HtmlPage\<rparr>, store)"
    by (simp add: finalhandler_def ValidationError_def)
next
  assume ok: "truthy (field b ''name'') \<and> truthy (field b ''price'')
                \<and> is_number (field b ''price'') \<and> \<not> num_le_zero (field b ''price'')"
  let ?r = "req\<lparr>body := b, params := [''id'' \<mapsto> i]\<rparr>"
  have v: "validateProduct (req\<lparr>body := b\<rparr>) = Inr (req\<lparr>body := b\<rparr>)"
    using ok assms(1) by (simp add: validateProduct_def Let_def)
  from handle_put_valid[OF assms(1-4) v assms(5), where lc = lc and uuid = uuid]
  obtain k where k:
    "k < length store" "id' (store ! k) = i"
    "handle lc uuid req store =
       (\<lparr>status = 200, content = ProductJson (assign ?r (store ! k))\<rparr>,
        store[k := assign ?r (store ! k)])"
    by blast
  have absent: "b f = None \<Longrightarrow> field b f = JUndefined" for f
    by (simp add: field_def)
  show "\<exists>k p. k < length store \<and> id' (store ! k) = i
          \<and> handle lc uuid req store = (\<lparr>status = 200, content = ProductJson p\<rparr>, store[k := p])
          \<and> name p = field b ''name'' \<and> price p = field b ''price''
          \<and> (b ''description'' = None \<longrightarrow> description p = description (store ! k))
          \<and> (b ''category'' = None \<longrightarrow> category p = category (store ! k))
          \<and> (b ''inStock'' = None \<longrightarrow> inStock p = inStock (store ! k))"
    using k ok
    by (intro exI[of _ k] exI[of _ "assign ?r (store ! k)"])
       (simp add: assign_def js_or_def absent)
qed

text \<open>
  The scenario with a body the validator accepts: \<open>{"name":"Smartphone","price":750}\<close>
  and the valid API key.
\<close>

theorem put_partial_body_witness:
  "''2'' \<in> set (map id' initial_products)
   \<and> (\<exists>k p. k < length initial_products \<and> id' (initial_products ! k) = ''2''
         \<and> handle ascii_lower ''u''
              ((plain_request PUT [''api'', ''products'', ''2''] Map.empty
                  [''name'' \<mapsto> JStr ''Smartphone'', ''price'' \<mapsto> JNum 750])
                 \<lparr>headers := [''x-api-key'' \<mapsto> ''secret-api-key'']\<rparr>)
              initial_products
            = (\<lparr>status = 200, content = ProductJson p\<rparr>, initial_products[k := p])
         \<and> name p = JStr ''Smartphone'' \<and> price p = JNum 750
         \<and> description p = description (initial_products ! k)
         \<and> category p = category (initial_products ! k)
         \<and> inStock p = inStock (initial_products ! k))"
proof -
  let ?b = "[''name'' \<mapsto> JStr ''Smartphone'', ''price'' \<mapsto> JNum 750]"
  let ?r = "(plain_request PUT [''api'', ''products'', ''2''] Map.empty ?b)
              \<lparr>headers := [''x-api-key'' \<mapsto> ''secret-api-key'']\<rparr>"
  have 1: "method' ?r = PUT" and 2: "path ?r = [''api'', ''products'', ''2'']"
    and 3: "''2'' \<noteq> []" and 4: "payload ?r = Inr ?b"
    by (simp_all add: plain_request_def)
  have 5: "''2'' \<in> set (map id' initial_products)"
    by (simp add: initial_products_def)
  have f: "field ?b ''name'' = JStr ''Smartphone''" "field ?b ''price'' = JNum 750"
    "?b ''description'' = None" "?b ''category'' = None" "?b ''inStock'' = None"
    by (simp_all add: field_def)
  have ok: "truthy (field ?b ''name'') \<and> truthy (field ?b ''price'')
              \<and> is_number (field ?b ''price'') \<and> \<not> num_le_zero (field ?b ''price'')"
    unfolding f by simp
  from put_partial_body[OF 1 2 3 4 5, where lc = ascii_lower and uuid = "''u''"] ok
  have "\<exists>k p. k < length initial_products \<and> id' (initial_products ! k) = ''2''
          \<and> handle ascii_lower ''u'' ?r initial_products
              = (\<lparr>status = 200, content = ProductJson p\<rparr>, initial_products[k := p])
          \<and> name p = field ?b ''name'' \<and> price p = field ?b ''price''
          \<and> (?b ''description'' = None \<longrightarrow> description p = description (initial_products ! k))
          \<and> (?b ''category'' = None \<longrightarrow> category p = category (initial_products ! k))
          \<and> (?b ''inStock'' = None \<longrightarrow> inStock p = inStock (initial_products ! k))"
    by (rule conjunct2[THEN mp])
  then show ?thesis
    using 5 unfolding f by simp
qed

section \<open>Authentication and the error envelope (C1, C3)\<close>

text \<open>
  C1 says that a request without the API key is answered 401 and leaves the store alone.
  In server.js \<open>authenticate\<close> is defined and never registered, neither with
  \<open>app.use\<close> nor on a route: a DELETE without any header, which \<open>authenticate\<close>
  would reject, is answered 204 and removes the product.
\<close>

theorem unauthenticated_delete_succeeds:
  "headers (plain_request DELETE [''api'', ''products'', ''1''] Map.empty Map.empty)
     ''x-api-key'' = None
   \<and> authenticate (plain_request DELETE [''api'', ''products'', ''1''] Map.empty Map.empty)
       = Inl (AuthError ''Invalid or missing API key'')
   \<and> handle lc ''u'' (plain_request DELETE [''api'', ''products'', ''1''] Map.empty Map.empty)
        initial_products
       = (\<lparr>status = 204, content = NoContent\<rparr>, tl initial_products)
   \<and> tl initial_products \<noteq> initial_products"
proof (intro conjI)
  show "headers (plain_request DELETE [''api'', ''products'', ''1''] Map.empty Map.empty)
          ''x-api-key'' = None"
    by (simp add: plain_request_def)
  show "authenticate (plain_request DELETE [''api'', ''products'', ''1''] Map.empty Map.empty)
          = Inl (AuthError ''Invalid or missing API key'')"
    by (simp add: authenticate_def plain_request_def)
  show "handle lc ''u'' (plain_request DELETE [''api'', ''products'', ''1''] Map.empty Map.empty)
          initial_products
        = (\<lparr>status = 204, content = NoContent\<rparr>, tl initial_products)"
    by (simp add: handle_def app_def plain_request_def logger_def bodyParser_json_def
          run_route_def delete_handler_def has_id_def initial_products_def)
  show "tl initial_products \<noteq> initial_products"
    by (simp add: initial_products_def)
qed

text \<open>
  C3 says that every error raised in a route handler is answered with the JSON envelope.
  In server.js the error-handling middleware is registered before the routes, so an
  error raised by a route never reaches it: the specification's own scenario,
  \<open>DELETE /api/products/999\<close>, raises \<open>NotFoundError\<close>, for which the error handler
  would produce the envelope, but the answer is the final handler's HTML page. Only an
  error of the body parser, which is registered above the error handler, gets the
  envelope.
\<close>

theorem route_error_skips_errorHandler:
  "run_route [] delete_handler ''u''
     ((plain_request DELETE [''api'', ''products'', ''999''] Map.empty Map.empty)
        \<lparr>params := [''id'' \<mapsto> ''999'']\<rparr>) initial_products
     = (Inl (NotFoundError ''Product not found''), initial_products)
   \<and> errorHandler (NotFoundError ''Product not found'')
       = \<lparr>status = 404, content = ErrorJson ''NotFoundError'' ''Product not found'' 404\<rparr>
   \<and> handle lc ''u'' (plain_request DELETE [''api'', ''products'', ''999''] Map.empty Map.empty)
        initial_products
       = (\<lparr>status = 404, content = HtmlPage\<rparr>, initial_products)"
proof (intro conjI)
  show "run_route [] delete_handler ''u''
     ((plain_request DELETE [''api'', ''products'', ''999''] Map.empty Map.empty)
        \<lparr>params := [''id'' \<mapsto> ''999'']\<rparr>) initial_products
     = (Inl (NotFoundError ''Product not found''), initial_products)"
    by (simp add: run_route_def delete_handler_def has_id_def initial_products_def
          plain_request_def)
  show "errorHandler (NotFoundError ''Product not found'')
       = \<lparr>status = 404, content = ErrorJson ''NotFoundError'' ''Product not found'' 404\<rparr>"
    by (simp add: errorHandler_def NotFoundError_def)
  show "handle lc ''u'' (plain_request DELETE [''api'', ''products'', ''999''] Map.empty Map.empty)
        initial_products
       = (\<lparr>status = 404, content = HtmlPage\<rparr>, initial_products)"
    by (simp add: handle_def app_def plain_request_def logger_def bodyParser_json_def
          run_route_def delete_handler_def has_id_def initial_products_def
          finalhandler_def NotFoundError_def)
qed

section \<open>Listing: pagination (C4)\<close>

text \<open>
  C4, as stated, fails in two ways, because the limit is taken as \<open>parseInt\<close>
  returns it. For \<open>GET /api/products?limit=-1\<close>, \<open>slice(0, -1)\<close> returns all but
  the last product: the two products returned are more than the limit, and \<open>pages\<close>
  is \<open>ceil(3 / -1) = -3\<close>. For a limit of 310 digits \<open>parseInt\<close> returns
  \<open>Infinity\<close>: the start index \<open>0 * Infinity\<close> is \<open>NaN\<close>, the slice is the whole
  list, and \<open>pages\<close> is \<open>ceil(3 / Infinity) = 0\<close>, so that page 1 is greater than
  \<open>pages\<close> and yet has three products.
\<close>

theorem limit_counterexample:
  "parseInt_or
     (query (plain_request GET [''api'', ''products''] [''limit'' \<mapsto> QString ''-1''] Map.empty)
        ''limit'') (Fin 10) = Fin (- 1)
   \<and> handle ascii_lower ''u''
       (plain_request GET [''api'', ''products''] [''limit'' \<mapsto> QString ''-1''] Map.empty)
       initial_products
     = (\<lparr>status = 200,
         content = ListJson \<lparr>total = 3, page = Fin 1, pages = Fin (- 3),
                             products = butlast initial_products\<rparr>\<rparr>,
        initial_products)
   \<and> \<not> int (length (butlast initial_products)) \<le> - 1
   \<and> parseInt huge_limit = PosInf
   \<and> handle ascii_lower ''u''
       (plain_request GET [''api'', ''products''] [''limit'' \<mapsto> QString huge_limit] Map.empty)
       initial_products
     = (\<lparr>status = 200,
         content = ListJson \<lparr>total = 3, page = Fin 1, pages = Fin 0,
                             products = initial_products\<rparr>\<rparr>,
        initial_products)
   \<and> initial_products \<noteq> []"
proof -
  let ?r = "plain_request GET [''api'', ''products''] [''limit'' \<mapsto> QString ''-1''] Map.empty"
  let ?h = "plain_request GET [''api'', ''products''] [''limit'' \<mapsto> QString huge_limit]
              Map.empty"
  have p: "parseInt ''-1'' = Fin (- 1)"
    by (simp add: parseInt_def white_space1_def white_space2_def is_digit_def digit_val_def
          digits_value_def round_double_def Let_def)
  have l: "parseInt_or (query ?r ''limit'') (Fin 10) = Fin (- 1)"
    by (simp add: parseInt_or_def plain_request_def p)
  have 1: "method' ?r = GET" and 2: "path ?r = [''api'', ''products'']"
    and 3: "payload ?r = Inr Map.empty"
    by (simp_all add: plain_request_def)
  have q: "query ?r ''category'' = None" "query ?r ''search'' = None"
    "query ?r ''page'' = None" "query ?r ''limit'' = Some (QString ''-1'')"
    by (simp_all add: plain_request_def)
  have h: "handle ascii_lower ''u'' ?r initial_products
     = (\<lparr>status = 200,
         content = ListJson \<lparr>total = 3, page = Fin 1, pages = Fin (- 3),
                             products = butlast initial_products\<rparr>\<rparr>,
        initial_products)"
    unfolding handle_list[OF 1 2 3]
    by (simp add: run_route_def list_handler_def filteredProducts_def filter_category_def
          filter_search_def paginate_def q parseInt_or_def p slice_def round_double_def
          Let_def initial_products_def ceiling_eq_iff)
  have n: "\<not> int (length (butlast initial_products)) \<le> - 1"
    by simp
  have inf: "parseInt huge_limit = PosInf"
    by code_simp
  have 1: "method' ?h = GET" and 2: "path ?h = [''api'', ''products'']"
    and 3: "payload ?h = Inr Map.empty"
    by (simp_all add: plain_request_def)
  have q: "query ?h ''category'' = None" "query ?h ''search'' = None"
    "query ?h ''page'' = None" "query ?h ''limit'' = Some (QString huge_limit)"
    by (simp_all add: plain_request_def)
  have h': "handle ascii_lower ''u'' ?h initial_products
     = (\<lparr>status = 200,
         content = ListJson \<lparr>total = 3, page = Fin 1, pages = Fin 0,
                             products = initial_products\<rparr>\<rparr>,
        initial_products)"
    unfolding handle_list[OF 1 2 3]
    by (simp add: run_route_def list_handler_def filteredProducts_def filter_category_def
          filter_search_def paginate_def q parseInt_or_def inf slice_def round_double_def
          Let_def initial_products_def)
  have ne: "initial_products \<noteq> []"
    by (simp add: initial_products_def)
  from l h n inf h' ne show ?thesis by blast
qed

text \<open>
  C4, amended. For every GET /api/products request whose filters do not raise, with
  \<open>F\<close> the store after the category filter and then the search filter, the answer is
  200 with \<open>total = length F\<close>, \<open>pages = Math.ceil(total / limit)\<close> and
  \<open>products = F.slice((page-1)*limit, page*limit)\<close>. When the limit is a finite
  number of at least 1, \<open>pages\<close> is the ceiling of \<open>total / limit\<close>, there are at
  most \<open>limit\<close> products, for a finite page of at least 1 they are the elements of \<open>F\<close>
  at the indices from \<open>(page-1)*limit\<close> up to \<open>page*limit\<close> (exclusive), and for a page
  greater than \<open>pages\<close> the products are empty, \<open>total\<close> and \<open>pages\<close> being the same.
  (The store is a JavaScript array, of fewer than \<open>2^32\<close> elements.)
\<close>

theorem list_pagination:
  assumes "method' req = GET" "path req = [''api'', ''products'']" "payload req = Inr b"
    and "filteredProducts lc req store = Inr F"
    and "limit = parseInt_or (query req ''limit'') (Fin 10)"
    and "pg = parseInt_or (query req ''page'') (Fin 1)"
    and "length store < 2 ^ 32"
  shows "\<exists>r. handle lc uuid req store = (\<lparr>status = 200, content = ListJson r\<rparr>, store)
           \<and> total r = length F
           \<and> page r = pg
           \<and> pages r = math_ceil_div (length F) limit
           \<and> products r = slice F (js_times (js_minus_one pg) limit) (js_times pg limit)
           \<and> (\<forall>l. limit = Fin l \<and> 1 \<le> l \<longrightarrow>
                 pages r = Fin \<lceil>rat_of_int (int (length F)) / rat_of_int l\<rceil>
                 \<and> int (length (products r)) \<le> l
                 \<and> (\<forall>k. pg = Fin k \<and> 1 \<le> k \<longrightarrow>
                       products r =
                         map (\<lambda>j. F ! j)
                           [nat ((k - 1) * l) ..< min (nat (k * l)) (length F)])
                 \<and> (pg = PosInf
                      \<or> (\<exists>k. pg = Fin k
                             \<and> \<lceil>rat_of_int (int (length F)) / rat_of_int l\<rceil> < k) \<longrightarrow>
                      products r = []))"
proof -
  let ?r = "req\<lparr>body := b, params := Map.empty\<rparr>"
  let ?P = "slice F (js_times (js_minus_one pg) limit) (js_times pg limit)"
  have f: "filteredProducts lc ?r store = Inr F"
    using assms(4) by (simp add: filteredProducts_def split: sum.splits)
  have pag: "paginate ?r F =
               \<lparr>total = length F, page = pg, pages = math_ceil_div (length F) limit,
                products = ?P\<rparr>"
    by (simp add: paginate_def Let_def assms(5,6))
  have h: "handle lc uuid req store = (\<lparr>status = 200, content = ListJson (paginate ?r F)\<rparr>, store)"
    unfolding handle_list[OF assms(1-3)]
    by (simp add: run_route_def list_handler_def f)
  have "length F < 2 ^ 32"
    using filteredProducts_length[OF assms(4)] assms(7) by linarith
  then have "int (length F) < 2 ^ 32"
    by (metis of_nat_less_iff of_nat_numeral of_nat_power)
  moreover have "(2::int) ^ 32 \<le> 2 ^ 53"
    by (intro power_increasing) simp_all
  ultimately have len53: "int (length F) < 2 ^ 53"
    by linarith
  have bounded:
    "math_ceil_div (length F) limit = Fin \<lceil>rat_of_int (int (length F)) / rat_of_int l\<rceil>
     \<and> int (length ?P) \<le> l
     \<and> (\<forall>k. pg = Fin k \<and> 1 \<le> k \<longrightarrow>
           ?P = map (\<lambda>j. F ! j) [nat ((k - 1) * l) ..< min (nat (k * l)) (length F)])
     \<and> (pg = PosInf
          \<or> (\<exists>k. pg = Fin k \<and> \<lceil>rat_of_int (int (length F)) / rat_of_int l\<rceil> < k) \<longrightarrow>
          ?P = [])"
    if lim: "limit = Fin l" and l: "1 \<le> l" for l
  proof -
    let ?pages = "\<lceil>rat_of_int (int (length F)) / rat_of_int l\<rceil>"
    have pages: "math_ceil_div (length F) limit = Fin ?pages"
      using lim l by simp
    have sgn: "sgn l = 1"
      using l by simp
    show ?thesis
    proof (cases pg)
      case NaN
      then have "?P = []"
        by (simp add: lim slice_def)
      with pages NaN l show ?thesis by simp
    next
      case PosInf
      then have "?P = []"
        by (simp add: lim slice_def sgn)
      with pages PosInf l show ?thesis by simp
    next
      case NegInf
      then have "?P = []"
        by (simp add: lim slice_def sgn)
      with pages NegInf l show ?thesis by simp
    next
      case (Fin k)
      let ?a = "(k - 1) * l" and ?b = "k * l"
      have s: "stands_for (js_times (js_minus_one pg) limit) ?a"
        unfolding Fin lim js_minus_one.simps
        by (rule stands_for_times[OF round_double_stands_for l])
      have e: "stands_for (js_times pg limit) ?b"
        unfolding Fin lim js_times.simps
        by (rule round_double_stands_for)
      have P: "?P = slice_int F ?a ?b"
        by (rule slice_stands_for[OF s e len53])
      have diff: "?b - ?a = l"
        by (simp add: algebra_simps)
      have ab: "?a \<le> ?b"
        using diff l by linarith
      have len: "int (length (slice_int F ?a ?b)) \<le> l"
        using length_slice_int[OF ab, of F] diff by simp
      have range: "slice_int F ?a ?b = map (\<lambda>j. F ! j) [nat ?a ..< min (nat ?b) (length F)]"
        if "1 \<le> k"
      proof -
        have a0: "0 \<le> ?a"
          using that l by simp
        have "nat ?a + nat l = nat ?b"
          using a0 l diff by linarith
        then show ?thesis
          using slice_int_nonneg[OF a0 ab, of F] diff
          by (simp add: take_drop_nth_interval)
      qed
      have beyond: "slice_int F ?a ?b = []" if "?pages < k"
      proof -
        have pos: "0 < rat_of_int l"
          using l by simp
        have c: "rat_of_int (int (length F)) / rat_of_int l \<le> rat_of_int ?pages"
          by (rule le_of_int_ceiling)
        have "rat_of_int (int (length F)) \<le> rat_of_int ?pages * rat_of_int l"
          by (rule iffD1[OF pos_divide_le_eq[OF pos] c])
        then have "rat_of_int (int (length F)) \<le> rat_of_int (?pages * l)"
          by simp
        then have "int (length F) \<le> ?pages * l"
          by (simp only: of_int_le_iff)
        also have "\<dots> \<le> ?a"
          using that l by (intro mult_right_mono) simp_all
        finally have "int (length F) \<le> ?a" .
        then show ?thesis
          using ab by (rule slice_int_beyond)
      qed
      show ?thesis
        unfolding P using pages len range beyond Fin by simp
    qed
  qed
  show ?thesis
    using h bounded unfolding pag
    by (intro exI[of _ "\<lparr>total = length F, page = pg,
                          pages = math_ceil_div (length F) limit, products = ?P\<rparr>"]) simp
qed

text \<open>The specification's scenario: \<open>?category=electronics&page=1&limit=1\<close>.\<close>

theorem list_pagination_witness:
  "\<exists>r. handle ascii_lower ''u''
          (plain_request GET [''api'', ''products'']
             [''category'' \<mapsto> QString ''electronics'', ''page'' \<mapsto> QString ''1'',
              ''limit'' \<mapsto> QString ''1'']
             Map.empty)
          initial_products
        = (\<lparr>status = 200, content = ListJson r\<rparr>, initial_products)
      \<and> total r = 2 \<and> page r = Fin 1 \<and> pages r = Fin 2
      \<and> products r = [initial_products ! 0]"
proof -
  let ?q = "[''category'' \<mapsto> QString ''electronics'', ''page'' \<mapsto> QString ''1'',
             ''limit'' \<mapsto> QString ''1'']"
  let ?r = "plain_request GET [''api'', ''products''] ?q Map.empty"
  let ?F = "[initial_products ! 0, initial_products ! 1]"
  have p: "parseInt ''1'' = Fin 1"
    by (simp add: parseInt_def white_space1_def is_digit_def digit_val_def digits_value_def
          round_double_def Let_def)
  have 1: "method' ?r = GET" and 2: "path ?r = [''api'', ''products'']"
    and 3: "payload ?r = Inr Map.empty"
    by (simp_all add: plain_request_def)
  have q: "query ?r ''category'' = Some (QString ''electronics'')" "query ?r ''search'' = None"
    "query ?r ''page'' = Some (QString ''1'')" "query ?r ''limit'' = Some (QString ''1'')"
    by (simp_all add: plain_request_def)
  have 4: "filteredProducts ascii_lower ?r initial_products = Inr ?F"
    by (simp add: filteredProducts_def filter_category_def filter_search_def q
          category_matches_def ascii_lower_def ascii_lower_char_def Let_def
          initial_products_def)
  have 5: "Fin 1 = parseInt_or (query ?r ''limit'') (Fin 10)"
    and 6: "Fin 1 = parseInt_or (query ?r ''page'') (Fin 1)"
    by (simp_all add: q parseInt_or_def p)
  have 7: "length initial_products < 2 ^ 32"
    by (simp add: initial_products_def)
  from list_pagination[OF 1 2 3 4 5 6 7, where uuid = "''u''"] obtain r where r:
    "handle ascii_lower ''u'' ?r initial_products
       = (\<lparr>status = 200, content = ListJson r\<rparr>, initial_products)"
    "total r = length ?F" "page r = Fin 1"
    and b: "\<forall>l. Fin 1 = Fin l \<and> 1 \<le> l \<longrightarrow>
                 pages r = Fin \<lceil>rat_of_int (int (length ?F)) / rat_of_int l\<rceil>
                 \<and> int (length (products r)) \<le> l
                 \<and> (\<forall>k. Fin 1 = Fin k \<and> 1 \<le> k \<longrightarrow>
                       products r =
                         map (\<lambda>j. ?F ! j)
                           [nat ((k - 1) * l) ..< min (nat (k * l)) (length ?F)])
                 \<and> (Fin 1 = PosInf
                      \<or> (\<exists>k. Fin 1 = Fin k
                             \<and> \<lceil>rat_of_int (int (length ?F)) / rat_of_int l\<rceil> < k) \<longrightarrow>
                      products r = [])"
    by blast
  from b[rule_format, of 1]
  have pages: "pages r = Fin \<lceil>rat_of_int (int (length ?F)) / rat_of_int 1\<rceil>"
    and range: "\<forall>k. Fin 1 = Fin k \<and> 1 \<le> k \<longrightarrow>
                       products r =
                         map (\<lambda>j. ?F ! j)
                           [nat ((k - 1) * 1) ..< min (nat (k * 1)) (length ?F)]"
    by simp_all
  from range[rule_format, of 1] have "products r = [initial_products ! 0]"
    by simp
  with r pages show ?thesis
    by (intro exI[of _ r]) simp
qed

section \<open>Listing: filtering (C5)\<close>

text \<open>
  C5, as stated, fails in two ways. An empty query value, \<open>GET /api/products?category=\<close>,
  applies no filter: all three seeded products are returned, none of which has the
  empty string as its category. And the stored category need not be a string: after
  \<open>POST /api/products\<close> with \<open>{"name":"Scale","price":20,"category":5}\<close>, the request
  \<open>GET /api/products?category=kitchen\<close> raises a \<open>TypeError\<close> in the filter and is
  answered with status 500. The same happens when the query value is not a string: for
  \<open>?category=kitchen&category=toys\<close> the parser gives an array, which has no
  \<open>toLowerCase\<close>.
\<close>

theorem category_filter_counterexample:
  "handle ascii_lower ''u''
     (plain_request GET [''api'', ''products''] [''category'' \<mapsto> QString []] Map.empty)
     initial_products
     = (\<lparr>status = 200,
         content = ListJson \<lparr>total = 3, page = Fin 1, pages = Fin 1,
                             products = initial_products\<rparr>\<rparr>,
        initial_products)
   \<and> map category initial_products
       = [JStr ''electronics'', JStr ''electronics'', JStr ''kitchen'']
   \<and> fst (handle ascii_lower ''u''
          (plain_request GET [''api'', ''products''] [''category'' \<mapsto> QString ''kitchen'']
             Map.empty)
          (snd (handle ascii_lower ''k-1''
                  (plain_request POST [''api'', ''products''] Map.empty
                     [''name'' \<mapsto> JStr ''Scale'', ''price'' \<mapsto> JNum 20,
                      ''category'' \<mapsto> JNum 5])
                  initial_products)))
       = \<lparr>status = 500, content = HtmlPage\<rparr>
   \<and> fst (handle ascii_lower ''u''
          (plain_request GET [''api'', ''products'']
             [''category'' \<mapsto> QArray [QString ''kitchen'', QString ''toys'']] Map.empty)
          initial_products)
       = \<lparr>status = 500, content = HtmlPage\<rparr>"
proof (intro conjI)
  let ?r = "plain_request GET [''api'', ''products''] [''category'' \<mapsto> QString []] Map.empty"
  have 1: "method' ?r = GET" and 2: "path ?r = [''api'', ''products'']"
    and 3: "payload ?r = Inr Map.empty"
    by (simp_all add: plain_request_def)
  have q: "query ?r ''category'' = Some (QString [])" "query ?r ''search'' = None"
    "query ?r ''page'' = None" "query ?r ''limit'' = None"
    by (simp_all add: plain_request_def)
  show "handle ascii_lower ''u'' ?r initial_products
     = (\<lparr>status = 200,
         content = ListJson \<lparr>total = 3, page = Fin 1, pages = Fin 1,
                             products = initial_products\<rparr>\<rparr>,
        initial_products)"
    unfolding handle_list[OF 1 2 3]
    by (simp add: run_route_def list_handler_def filteredProducts_def filter_category_def
          filter_search_def paginate_def q parseInt_or_def slice_def round_double_def
          Let_def initial_products_def ceiling_eq_iff)
  show "map category initial_products
          = [JStr ''electronics'', JStr ''electronics'', JStr ''kitchen'']"
    by (simp add: initial_products_def)
next
  let ?post = "plain_request POST [''api'', ''products''] Map.empty
                 [''name'' \<mapsto> JStr ''Scale'', ''price'' \<mapsto> JNum 20, ''category'' \<mapsto> JNum 5]"
  let ?get = "plain_request GET [''api'', ''products''] [''category'' \<mapsto> QString ''kitchen'']
                Map.empty"
  let ?scale = "\<lparr>id' = ''k-1'', name = JStr ''Scale'', description = JStr [], price = JNum 20,
                 category = JNum 5, inStock = JBool True\<rparr>"
  have p1: "method' ?post = POST" and p2: "path ?post = [''api'', ''products'']"
    and p3: "payload ?post
               = Inr [''name'' \<mapsto> JStr ''Scale'', ''price'' \<mapsto> JNum 20, ''category'' \<mapsto> JNum 5]"
    by (simp_all add: plain_request_def)
  have s1: "snd (handle ascii_lower ''k-1'' ?post initial_products)
              = initial_products @ [?scale]"
    unfolding handle_post[OF p1 p2 p3]
    by (simp add: run_route_def validateProduct_def post_handler_def newProduct_def
          plain_request_def field_def js_or_def Let_def)
  have 1: "method' ?get = GET" and 2: "path ?get = [''api'', ''products'']"
    and 3: "payload ?get = Inr Map.empty"
    by (simp_all add: plain_request_def)
  have q: "query ?get ''category'' = Some (QString ''kitchen'')"
    by (simp add: plain_request_def)
  have "fst (handle ascii_lower ''u'' ?get (initial_products @ [?scale]))
          = \<lparr>status = 500, content = HtmlPage\<rparr>"
    unfolding handle_list[OF 1 2 3]
    by (simp add: run_route_def list_handler_def filteredProducts_def filter_category_def
          q category_matches_def ascii_lower_def ascii_lower_char_def Let_def
          initial_products_def finalhandler_def TypeError_def)
  with s1 show "fst (handle ascii_lower ''u'' ?get
                      (snd (handle ascii_lower ''k-1'' ?post initial_products)))
                  = \<lparr>status = 500, content = HtmlPage\<rparr>"
    by simp
next
  let ?get = "plain_request GET [''api'', ''products'']
                [''category'' \<mapsto> QArray [QString ''kitchen'', QString ''toys'']] Map.empty"
  have 1: "method' ?get = GET" and 2: "path ?get = [''api'', ''products'']"
    and 3: "payload ?get = Inr Map.empty"
    by (simp_all add: plain_request_def)
  have q: "query ?get ''category'' = Some (QArray [QString ''kitchen'', QString ''toys''])"
    by (simp add: plain_request_def)
  show "fst (handle ascii_lower ''u'' ?get initial_products)
          = \<lparr>status = 500, content = HtmlPage\<rparr>"
    unfolding handle_list[OF 1 2 3]
    by (simp add: run_route_def list_handler_def filteredProducts_def filter_category_def
          q category_matches_def initial_products_def finalhandler_def TypeError_def)
qed

text \<open>
  C5, amended. For every GET /api/products request with a non-empty string
  \<open>category=X\<close> and optionally a string \<open>search=Y\<close>, against a store in which every
  category is a string and, when a non-empty \<open>Y\<close> is given, the name of every record
  that passes the category filter is a string: the filtered list \<open>F\<close> holds exactly
  the stored records, in store order, whose lower-cased category equals the
  lower-cased \<open>X\<close> and (for a non-empty \<open>Y\<close>) whose lower-cased name contains the
  lower-cased \<open>Y\<close>, the category filter coming first, then the search filter; the
  answer is 200 with \<open>total = length F\<close> and the page slice of \<open>F\<close> as products. This
  holds for every case mapping \<open>lc\<close>.
\<close>

theorem list_filtering:
  assumes "method' req = GET" "path req = [''api'', ''products'']" "payload req = Inr b"
    and "query req ''category'' = Some (QString X)" "X \<noteq> []"
    and "query req ''search'' = map_option QString search"
    and "\<forall>p\<in>set store. is_string (category p)"
    and "\<forall>p\<in>set store. (\<exists>Y. search = Some Y \<and> Y \<noteq> []) \<longrightarrow>
           lc (str_of (category p)) = lc X \<longrightarrow> is_string (name p)"
    and "F = filter (\<lambda>p. \<forall>Y. search = Some Y \<and> Y \<noteq> [] \<longrightarrow>
                        (\<exists>ps ss. lc (str_of (name p)) = ps @ lc Y @ ss))
               (filter (\<lambda>p. lc (str_of (category p)) = lc X) store)"
  shows "filteredProducts lc req store = Inr F
       \<and> handle lc uuid req store =
           (\<lparr>status = 200,
             content = ListJson
               \<lparr>total = length F,
                page = parseInt_or (query req ''page'') (Fin 1),
                pages = math_ceil_div (length F) (parseInt_or (query req ''limit'') (Fin 10)),
                products = slice F
                  (js_times (js_minus_one (parseInt_or (query req ''page'') (Fin 1)))
                     (parseInt_or (query req ''limit'') (Fin 10)))
                  (js_times (parseInt_or (query req ''page'') (Fin 1))
                     (parseInt_or (query req ''limit'') (Fin 10)))\<rparr>\<rparr>,
            store)"
proof -
  let ?cat = "\<lambda>p. lc (str_of (category p)) = lc X"
  let ?has = "\<lambda>Y p. \<exists>ps ss. lc (str_of (name p)) = ps @ lc Y @ ss"
  let ?search = "\<lambda>p. \<forall>Y. search = Some Y \<and> Y \<noteq> [] \<longrightarrow> ?has Y p"
  let ?r = "req\<lparr>body := b, params := Map.empty\<rparr>"
  have cat: "category_matches lc (QString X) p = Inr (?cat p)" if "p \<in> set store" for p
  proof -
    from that assms(7) have "is_string (category p)" by blast
    then show ?thesis
      by (cases "category p") (simp_all add: category_matches_def)
  qed
  have c: "filter_category lc (query req ''category'') store = Inr (filter ?cat store)"
    using assms(4,5) filterE_total[of store "category_matches lc (QString X)" ?cat, OF cat]
    by (simp add: filter_category_def)
  have s: "filter_search lc (query req ''search'') (filter ?cat store) = Inr F"
  proof (cases "\<exists>Y. search = Some Y \<and> Y \<noteq> []")
    case False
    then have "?search p" for p by blast
    then have F: "F = filter ?cat store"
      unfolding assms(9) by (intro filter_True) blast
    from False have "search = None \<or> search = Some []"
      by (cases search) auto
    then show ?thesis
      using F by (auto simp: filter_search_def assms(6))
  next
    case True
    then obtain Y where Y: "search = Some Y" "Y \<noteq> []" by blast
    have nm: "name_matches lc (lc Y) p = Inr (?has Y p)" if "p \<in> set (filter ?cat store)" for p
    proof -
      from that assms(8) True have "is_string (name p)" by auto
      then show ?thesis
        by (cases "name p") (simp_all add: name_matches_def includes'_iff)
    qed
    have "filterE (name_matches lc (lc Y)) (filter ?cat store)
            = Inr (filter (?has Y) (filter ?cat store))"
      using nm by (rule filterE_total)
    moreover have "F = filter (?has Y) (filter ?cat store)"
      unfolding assms(9) using Y by simp
    ultimately show ?thesis
      using Y by (simp add: filter_search_def assms(6))
  qed
  have f: "filteredProducts lc req store = Inr F"
    by (simp add: filteredProducts_def c s)
  then have f': "filteredProducts lc ?r store = Inr F"
    by (simp add: filteredProducts_def split: sum.splits)
  have h: "handle lc uuid req store = (\<lparr>status = 200, content = ListJson (paginate ?r F)\<rparr>, store)"
    unfolding handle_list[OF assms(1-3)]
    by (simp add: run_route_def list_handler_def f')
  show ?thesis
    using f h by (simp add: paginate_def Let_def)
qed

text \<open>
  An example in which the order of the filters shows: the last record has a number as
  its name, which the search filter would fail on, but it does not pass the category
  filter. The request is \<open>?category=ELECTRONICS&search=Phone\<close>.
\<close>

theorem list_filtering_witness:
  "handle ascii_lower ''u''
       (plain_request GET [''api'', ''products'']
          [''category'' \<mapsto> QString ''ELECTRONICS'', ''search'' \<mapsto> QString ''Phone'']
          Map.empty)
       (initial_products @
          [\<lparr>id' = ''4'', name = JNum 7, description = JStr [], price = JNum 1,
            category = JStr ''toys'', inStock = JBool True\<rparr>])
     = (\<lparr>status = 200,
         content = ListJson \<lparr>total = 1, page = Fin 1, pages = Fin 1,
                             products = [initial_products ! 1]\<rparr>\<rparr>,
        initial_products @
          [\<lparr>id' = ''4'', name = JNum 7, description = JStr [], price = JNum 1,
            category = JStr ''toys'', inStock = JBool True\<rparr>])"
proof -
  let ?q = "[''category'' \<mapsto> QString ''ELECTRONICS'', ''search'' \<mapsto> QString ''Phone'']"
  let ?r = "plain_request GET [''api'', ''products''] ?q Map.empty"
  let ?store = "initial_products @
          [\<lparr>id' = ''4'', name = JNum 7, description = JStr [], price = JNum 1,
            category = JStr ''toys'', inStock = JBool True\<rparr>]"
  let ?F = "filter (\<lambda>p. \<forall>Y. Some ''Phone'' = Some Y \<and> Y \<noteq> [] \<longrightarrow>
                        (\<exists>ps ss. ascii_lower (str_of (name p)) = ps @ ascii_lower Y @ ss))
               (filter (\<lambda>p. ascii_lower (str_of (category p)) = ascii_lower ''ELECTRONICS'')
                  ?store)"
  note ev = ascii_lower_def ascii_lower_char_def char_of_def bit_Suc_0_iff Let_def
    initial_products_def
  have 1: "method' ?r = GET" and 2: "path ?r = [''api'', ''products'']"
    and 3: "payload ?r = Inr Map.empty"
    by (simp_all add: plain_request_def)
  have q: "query ?r ''category'' = Some (QString ''ELECTRONICS'')"
    "query ?r ''search'' = map_option QString (Some ''Phone'')"
    "query ?r ''page'' = None" "query ?r ''limit'' = None"
    by (simp_all add: plain_request_def)
  have 5: "''ELECTRONICS'' \<noteq> []"
    by simp
  have 7: "\<forall>p\<in>set ?store. is_string (category p)"
    by (simp add: initial_products_def)
  have 8: "\<forall>p\<in>set ?store. (\<exists>Y. Some ''Phone'' = Some Y \<and> Y \<noteq> []) \<longrightarrow>
             ascii_lower (str_of (category p)) = ascii_lower ''ELECTRONICS'' \<longrightarrow>
             is_string (name p)"
    by (simp add: ev)
  have eval: "filteredProducts ascii_lower ?r ?store = Inr [initial_products ! 1]"
    by (simp add: filteredProducts_def filter_category_def filter_search_def q(3,4)
          plain_request_def category_matches_def name_matches_def ev)
  from list_filtering[OF 1 2 3 q(1) 5 q(2) 7 8 refl, where uuid = "''u''"]
  have t: "filteredProducts ascii_lower ?r ?store = Inr ?F"
    and h: "handle ascii_lower ''u'' ?r ?store =
           (\<lparr>status = 200,
             content = ListJson
               \<lparr>total = length ?F,
                page = parseInt_or (query ?r ''page'') (Fin 1),
                pages = math_ceil_div (length ?F) (parseInt_or (query ?r ''limit'') (Fin 10)),
                products = slice ?F
                  (js_times (js_minus_one (parseInt_or (query ?r ''page'') (Fin 1)))
                     (parseInt_or (query ?r ''limit'') (Fin 10)))
                  (js_times (parseInt_or (query ?r ''page'') (Fin 1))
                     (parseInt_or (query ?r ''limit'') (Fin 10)))\<rparr>\<rparr>,
            ?store)"
    by blast+
  from t eval have F: "?F = [initial_products ! 1]"
    by simp
  show ?thesis
    unfolding h F
    by (simp add: q(3,4) parseInt_or_def slice_def round_double_def ceiling_eq_iff)
qed

section \<open>Unique ids (C9)\<close>

text \<open>
  C9. Provided the id generator returns an id that no stored product has, the ids of
  the store are unique in every reachable state, every request (create, update, delete
  or any other) keeps them unique, and every create answers with a record whose id
  differs from the id of every record stored before.
\<close>

theorem ids_unique:
  assumes "reachable lc store"
  shows "distinct (map id' store)
       \<and> (\<forall>uuid req. uuid \<notin> set (map id' store) \<longrightarrow>
            distinct (map id' (snd (handle lc uuid req store))))
       \<and> (\<forall>uuid req p. uuid \<notin> set (map id' store) \<longrightarrow>
            fst (handle lc uuid req store) = \<lparr>status = 201, content = ProductJson p\<rparr> \<longrightarrow>
            id' p \<notin> set (map id' store))"
proof -
  from assms have d: "distinct (map id' store)"
  proof (induction rule: reachable.induct)
    case initial
    show ?case by (simp add: initial_products_def)
  next
    case (request store uuid req)
    then show ?case by (intro handle_distinct)
  qed
  have step: "distinct (map id' (snd (handle lc uuid req store)))"
    if "uuid \<notin> set (map id' store)" for uuid req
    using d that by (rule handle_distinct)
  have fresh: "id' p \<notin> set (map id' store)"
    if "uuid \<notin> set (map id' store)"
      and "fst (handle lc uuid req store) = \<lparr>status = 201, content = ProductJson p\<rparr>"
    for uuid req p
    using handle_created[OF that(2)] that(1) by simp
  from d step fresh show ?thesis
    by blast
qed

theorem ids_unique_witness:
  "reachable ascii_lower
     (snd (handle ascii_lower ''k-1''
             (plain_request POST [''api'', ''products''] Map.empty
                [''name'' \<mapsto> JStr ''Kettle'', ''price'' \<mapsto> JNum 30])
             initial_products))
   \<and> distinct
       (map id'
          (snd (handle ascii_lower ''k-1''
                  (plain_request POST [''api'', ''products''] Map.empty
                     [''name'' \<mapsto> JStr ''Kettle'', ''price'' \<mapsto> JNum 30])
                  initial_products)))"
proof -
  have "''k-1'' \<notin> set (map id' initial_products)"
    by (simp add: initial_products_def)
  with reachable.initial
  have r: "reachable ascii_lower
     (snd (handle ascii_lower ''k-1''
             (plain_request POST [''api'', ''products''] Map.empty
                [''name'' \<mapsto> JStr ''Kettle'', ''price'' \<mapsto> JNum 30])
             initial_products))"
    by (rule reachable.request)
  from ids_unique[OF r] r show ?thesis
    by blast
qed

section \<open>Failure leaves the store as it was (C10)\<close>

text \<open>
  C10. Whenever the create, update or delete route raises (a \<open>ValidationError\<close> from
  the validator, a \<open>NotFoundError\<close> from the handler), the store after the request is
  the store before it; and whenever a request is answered with an error status, the
  store is unchanged.
\<close>

theorem failed_mutation_leaves_store:
  "(run_route [validateProduct] post_handler uuid req store = (Inl e, store') \<longrightarrow>
      store' = store \<and> (\<exists>msg. e = ValidationError msg))
   \<and> (run_route [validateProduct] put_handler uuid req store = (Inl e, store') \<longrightarrow>
        store' = store
        \<and> ((\<exists>msg. e = ValidationError msg) \<or> e = NotFoundError ''Product not found''))
   \<and> (run_route [] delete_handler uuid req store = (Inl e, store') \<longrightarrow>
        store' = store \<and> e = NotFoundError ''Product not found'')
   \<and> (400 \<le> status (fst (handle lc uuid req store)) \<longrightarrow> snd (handle lc uuid req store) = store)"
proof (intro conjI impI)
  have v: "\<exists>msg. e = ValidationError msg" if "validateProduct req = Inl e"
    using that by (auto simp: validateProduct_def Let_def split: if_splits)
  {
    assume "run_route [validateProduct] post_handler uuid req store = (Inl e, store')"
    then have "validateProduct req = Inl e \<and> store' = store"
      by (auto simp: run_route_validate post_handler_def split: sum.splits)
    with v show "store' = store" and "\<exists>msg. e = ValidationError msg"
      by blast+
  }
  {
    assume "run_route [validateProduct] put_handler uuid req store = (Inl e, store')"
    then have "store' = store
                 \<and> (validateProduct req = Inl e \<or> e = NotFoundError ''Product not found'')"
      by (auto simp: run_route_validate put_handler_def split: sum.splits option.splits)
    with v show "store' = store"
      and "(\<exists>msg. e = ValidationError msg) \<or> e = NotFoundError ''Product not found''"
      by blast+
  }
  {
    assume "run_route [] delete_handler uuid req store = (Inl e, store')"
    then show "store' = store" and "e = NotFoundError ''Product not found''"
      by (auto simp: run_route_Nil delete_handler_def split: if_splits)
  }
  {
    assume "400 \<le> status (fst (handle lc uuid req store))"
    then show "snd (handle lc uuid req store) = store"
      by (rule handle_error_status)
  }
qed

theorem failed_mutation_leaves_store_witness:
  "400 \<le> status (fst (handle ascii_lower ''u''
             (plain_request DELETE [''api'', ''products'', ''999''] Map.empty Map.empty)
             initial_products))
   \<and> snd (handle ascii_lower ''u''
            (plain_request DELETE [''api'', ''products'', ''999''] Map.empty Map.empty)
            initial_products) = initial_products"
proof -
  let ?r = "plain_request DELETE [''api'', ''products'', ''999''] Map.empty Map.empty"
  have "fst (handle ascii_lower ''u'' ?r initial_products) = \<lparr>status = 404, content = HtmlPage\<rparr>"
    by (simp add: handle_def app_def plain_request_def logger_def bodyParser_json_def
          run_route_def delete_handler_def has_id_def initial_products_def
          finalhandler_def NotFoundError_def)
  then have e: "400 \<le> status (fst (handle ascii_lower ''u'' ?r initial_products))"
    by simp
  from failed_mutation_leaves_store[where lc = ascii_lower and uuid = "''u''" and req = ?r
         and store = initial_products] e show ?thesis
    by blast
qed

end
